theory Spec2Isabelle
  imports Main
begin

section \<open>DTensor BERT example: the mesh and sharding coordination layer\<close>

text \<open>
  A shallow embedding of \<^verbatim>\<open>dtensor-keras-bert.py\<close>. The program is a client of
  TensorFlow, DTensor and NumPy; the calls it makes into these libraries are modelled by
  small functions named after the library call (\<open>tf_split\<close>, \<open>dtensor_pack\<close>,
  \<open>np_unique\<close>, ...) that follow the libraries' documented behaviour. Every Python
  exception is a value of \<open>error\<close>, and a function that may raise returns
  \<open>error + 'a\<close>.
\<close>

subsection \<open>Module-level parameters\<close>

definition MODEL_DIM :: string where
  "MODEL_DIM = ''model''"

definition BATCH_DIM :: string where
  "BATCH_DIM = ''batch''"

definition mesh_dims :: "(string \<times> nat) list" where
  "mesh_dims = [(BATCH_DIM, 4), (MODEL_DIM, 2)]"

definition num_classes :: nat where
  "num_classes = 2"

definition vocab_size :: nat where
  "vocab_size = 100"

definition batch_size :: nat where
  "batch_size = 32"

definition sequence_length :: nat where
  "sequence_length = 10"

text \<open>\<^verbatim>\<open>dtensor.UNSHARDED\<close>, the sharding spec of an axis that is not split.\<close>

definition UNSHARDED :: string where
  "UNSHARDED = ''unsharded''"

subsection \<open>Errors, meshes and tensors\<close>

datatype error =
    KeyError
  | ValueError
  | IndexError
  | ZeroDivisionError
  | AssertionError
  | InvalidArgumentError
  | StopIteration
  | Blocked

text \<open>
  \<open>Blocked\<close> is not an exception: it is the outcome of a client that waits in a
  collective operation which one of its peers never joins.

  A device location is the dictionary \<^verbatim>\<open>{dimension name: coordinate}\<close> that
  \<^verbatim>\<open>mesh.local_device_locations()\<close> returns for one local device; it is kept as an
  association list, read with \<open>map_of\<close>.
\<close>

type_synonym location = "(string \<times> int) list"

record mesh =
  dims :: "(string \<times> nat) list"
  local_device_locations :: "location list"

text \<open>\<^verbatim>\<open>mesh.dim_size(name)\<close>; DTensor raises ValueError for a name the mesh lacks.\<close>

definition dim_size :: "mesh \<Rightarrow> string \<Rightarrow> error + nat" where
  "dim_size m name = (case map_of (dims m) name of None \<Rightarrow> Inl ValueError | Some n \<Rightarrow> Inr n)"

text \<open>
  A dense tensor: its shape and its elements in row-major order, so that the rows along
  axis 0 are consecutive blocks of \<open>prod_list (tl shape)\<close> elements.
\<close>

record 'a tensor =
  shape :: "nat list"
  elems :: "'a list"

definition tensor_ok :: "'a tensor \<Rightarrow> bool" where
  "tensor_ok t = (length (elems t) = prod_list (shape t))"

text \<open>
  A distributed tensor as \<^verbatim>\<open>dtensor.pack\<close> builds it: the layout's sharding specs, the
  global shape, and one component per local device, in the order of
  \<^verbatim>\<open>mesh.local_device_locations()\<close>.
\<close>

record 'a dtensor =
  sharding_specs :: "string list"
  global_shape :: "nat list"
  components :: "'a tensor list"

subsection \<open>Library calls used by the Sharding Packer\<close>

text \<open>
  \<^verbatim>\<open>dtensor.Layout.batch_sharded(mesh, batch_dim, rank)\<close>: the layout
  \<^verbatim>\<open>[batch_dim] + [UNSHARDED] * (rank - 1)\<close>; constructing a layout over a dimension
  the mesh does not have raises ValueError.
\<close>

definition batch_sharded :: "mesh \<Rightarrow> string \<Rightarrow> nat \<Rightarrow> error + string list" where
  "batch_sharded m batch_dim rank =
     (if batch_dim \<in> fst ` set (dims m)
      then Inr (batch_dim # replicate (rank - 1) UNSHARDED)
      else Inl ValueError)"

text \<open>The first \<open>n\<close> consecutive blocks of \<open>c\<close> elements of a list.\<close>

fun blocks :: "nat \<Rightarrow> nat \<Rightarrow> 'a list \<Rightarrow> 'a list list" where
  "blocks c 0 xs = []"
| "blocks c (Suc n) xs = take c xs # blocks c n (drop c xs)"

text \<open>
  \<^verbatim>\<open>tf.split(tensor, n, axis=0)\<close> with an integer \<open>n\<close>: \<open>n\<close> tensors of equal size
  along axis 0. TensorFlow raises InvalidArgumentError when \<open>n\<close> does not evenly divide
  the size of axis 0 (and for a scalar, or \<open>n = 0\<close>).
\<close>

definition tf_split :: "'a tensor \<Rightarrow> nat \<Rightarrow> error + 'a tensor list" where
  "tf_split t n =
     (case shape t of
        [] \<Rightarrow> Inl InvalidArgumentError
      | d0 # rest \<Rightarrow>
          if n = 0 then Inl InvalidArgumentError
          else if d0 mod n \<noteq> 0 then Inl InvalidArgumentError
          else Inr (map (\<lambda>b. \<lparr>shape = (d0 div n) # rest, elems = b\<rparr>)
                      (blocks ((d0 div n) * prod_list rest) n (elems t))))"

text \<open>
  The size of axis 0, and \<^verbatim>\<open>tf.concat(ts, axis=0)\<close> for tensors that agree on the
  other axes: in row-major order the elements are simply appended.
\<close>

definition axis0 :: "'a tensor \<Rightarrow> nat" where
  "axis0 t = (case shape t of [] \<Rightarrow> 0 | d0 # _ \<Rightarrow> d0)"

definition tf_concat :: "'a tensor list \<Rightarrow> 'a tensor" where
  "tf_concat ts =
     \<lparr>shape = (case ts of [] \<Rightarrow> [0] | t # _ \<Rightarrow> sum_list (map axis0 ts) # tl (shape t)),
      elems = concat (map elems ts)\<rparr>"

text \<open>
  The number of shards a sharding spec stands for: 1 for an unsharded axis, the size of
  the mesh dimension otherwise.
\<close>

definition num_shards :: "mesh \<Rightarrow> string \<Rightarrow> nat" where
  "num_shards m spec =
     (if spec = UNSHARDED then 1
      else case map_of (dims m) spec of None \<Rightarrow> 1 | Some n \<Rightarrow> n)"

text \<open>
  \<^verbatim>\<open>dtensor.pack(components, layout)\<close>: one component per local device of the layout's
  mesh (anything else raises); the global shape is the component shape with every
  sharded axis multiplied by the number of shards of its mesh dimension.
\<close>

definition dtensor_pack :: "mesh \<Rightarrow> 'a tensor list \<Rightarrow> string list \<Rightarrow> error + 'a dtensor" where
  "dtensor_pack m comps layout =
     (case comps of
        [] \<Rightarrow> Inl InvalidArgumentError
      | c # _ \<Rightarrow>
          if length comps \<noteq> length (local_device_locations m) then Inl InvalidArgumentError
          else if length (shape c) \<noteq> length layout then Inl InvalidArgumentError
          else Inr \<lparr>sharding_specs = layout,
                    global_shape = map2 (\<lambda>d spec. d * num_shards m spec) (shape c) layout,
                    components = comps\<rparr>)"

subsection \<open>The Sharding Packer: \<^verbatim>\<open>shard_data\<close>\<close>

text \<open>
  \<^verbatim>\<open>
  replicas = set()
  for entry in mesh.local_device_locations():
    replicas.add(entry[batch_dim])
  \<close>
  A missing key raises KeyError.
\<close>

fun collect_replicas :: "string \<Rightarrow> location list \<Rightarrow> int set \<Rightarrow> error + int set" where
  "collect_replicas batch_dim [] replicas = Inr replicas"
| "collect_replicas batch_dim (entry # es) replicas =
     (case map_of entry batch_dim of
        None \<Rightarrow> Inl KeyError
      | Some c \<Rightarrow> collect_replicas batch_dim es (insert c replicas))"

text \<open>
  \<^verbatim>\<open>{replica_id: slice_id for slice_id, replica_id in enumerate(sorted(replicas))}\<close>:
  the dictionary is filled in the order of the enumeration, a later pair overwriting an
  earlier one with the same key.
\<close>

definition replica_to_slice :: "int set \<Rightarrow> (int \<rightharpoonup> nat)" where
  "replica_to_slice replicas =
     fold (\<lambda>(slice_id, replica_id) d. d(replica_id \<mapsto> slice_id))
          (enumerate 0 (sorted_list_of_set replicas)) Map.empty"

text \<open>
  \<^verbatim>\<open>
  components = []
  for entry in mesh.local_device_locations():
    replica_id = entry[batch_dim]
    slice_id = replica_to_slice[replica_id]
    components.append(slices[slice_id])
  \<close>
\<close>

fun pick_components ::
  "string \<Rightarrow> (int \<rightharpoonup> nat) \<Rightarrow> 'a tensor list \<Rightarrow> location list \<Rightarrow> 'a tensor list
     \<Rightarrow> error + 'a tensor list" where
  "pick_components batch_dim r2s slices [] comps = Inr comps"
| "pick_components batch_dim r2s slices (entry # es) comps =
     (case map_of entry batch_dim of
        None \<Rightarrow> Inl KeyError
      | Some replica_id \<Rightarrow>
          (case r2s replica_id of
             None \<Rightarrow> Inl KeyError
           | Some slice_id \<Rightarrow>
               if slice_id < length slices
               then pick_components batch_dim r2s slices es (comps @ [slices ! slice_id])
               else Inl IndexError))"

definition shard_data :: "mesh \<Rightarrow> string \<Rightarrow> 'a tensor \<Rightarrow> error + 'a dtensor" where
  "shard_data m batch_dim t =
     (case batch_sharded m batch_dim (length (shape t)) of
        Inl e \<Rightarrow> Inl e
      | Inr layout \<Rightarrow>
     (case collect_replicas batch_dim (local_device_locations m) {} of
        Inl e \<Rightarrow> Inl e
      | Inr replicas \<Rightarrow>
     (case tf_split t (card replicas) of
        Inl e \<Rightarrow> Inl e
      | Inr slices \<Rightarrow>
     (case pick_components batch_dim (replica_to_slice replicas) slices
             (local_device_locations m) [] of
        Inl e \<Rightarrow> Inl e
      | Inr comps \<Rightarrow> dtensor_pack m comps layout))))"

subsection \<open>Client processes\<close>

text \<open>
  What a client prints: \<^verbatim>\<open>dprint\<close> prefixes every line with the client id, so a printed
  line is kept with the id of the client that printed it.
\<close>

record pipeline_params =
  input_pipeline_id :: nat
  num_input_pipelines :: nat
  num_local_replicas_in_sync :: nat

datatype 'l line =
    Pipeline_Params pipeline_params
  | Training_started
  | Epoch_Loss nat 'l

text \<open>
  The state of one client process: \<^verbatim>\<open>dtensor.client_id()\<close>, \<^verbatim>\<open>dtensor.num_clients()\<close>,
  the module-level global \<^verbatim>\<open>client_mesh\<close> (\<open>None\<close> until it is built), the number of
  client meshes the process has constructed so far, and its standard output. A mesh
  object is its construction number together with its value, so that two objects built
  at different times differ even when their values agree.
\<close>

record 'l process =
  client_id :: nat
  num_clients :: nat
  client_mesh :: "(nat \<times> mesh) option"
  meshes_created :: nat
  stdout :: "(nat \<times> 'l line) list"

definition dprint :: "'l line \<Rightarrow> 'l process \<Rightarrow> 'l process" where
  "dprint msg p = p\<lparr>stdout := stdout p @ [(client_id p, msg)]\<rparr>"

definition rprint :: "'l line \<Rightarrow> 'l process \<Rightarrow> 'l process" where
  "rprint msg p = (if client_id p = 0 then dprint msg p else p)"

subsection \<open>Cross-client consensus: \<^verbatim>\<open>unique_across_clients\<close>\<close>

text \<open>
  \<^verbatim>\<open>dtensor.create_distributed_mesh([("clients", num_clients)], device_type="CPU",
  num_global_devices=num_clients)\<close>: a one-dimensional mesh with one device per client;
  the device of client \<open>i\<close> has coordinate \<open>i\<close>.
\<close>

definition create_client_mesh :: "'l process \<Rightarrow> (nat \<times> mesh) \<times> 'l process" where
  "create_client_mesh p =
     ((meshes_created p,
       \<lparr>dims = [(''clients'', num_clients p)],
        local_device_locations = [[(''clients'', int (client_id p))]]\<rparr>),
      p\<lparr>meshes_created := Suc (meshes_created p)\<rparr>)"

text \<open>
  \<^verbatim>\<open>
  global client_mesh
  if client_mesh is None:
    client_mesh = dtensor.create_distributed_mesh(...)
  \<close>
\<close>

definition ensure_client_mesh :: "'l process \<Rightarrow> mesh \<times> 'l process" where
  "ensure_client_mesh p =
     (case client_mesh p of
        None \<Rightarrow> (case create_client_mesh p of (obj, q) \<Rightarrow> (snd obj, q\<lparr>client_mesh := Some obj\<rparr>))
      | Some obj \<Rightarrow> (snd obj, p))"

text \<open>
  \<^verbatim>\<open>tf.constant(xs, tf.int32)\<close> for a list of Python integers: an integer that fits a
  signed 64-bit integer is reduced modulo \<open>2 ^ 32\<close> to the signed 32-bit integer with
  the same low 32 bits, so a value outside the range of \<^verbatim>\<open>tf.int32\<close> wraps around;
  TensorFlow raises ValueError only for an integer beyond 64 bits.
\<close>

definition fits_int32 :: "int \<Rightarrow> bool" where
  "fits_int32 x = (- (2 ^ 31) \<le> x \<and> x < 2 ^ 31)"

definition fits_int64 :: "int \<Rightarrow> bool" where
  "fits_int64 x = (- (2 ^ 63) \<le> x \<and> x < 2 ^ 63)"

definition wrap_int32 :: "int \<Rightarrow> int" where
  "wrap_int32 x = (x + 2 ^ 31) mod 2 ^ 32 - 2 ^ 31"

definition tf_constant_int32 :: "int list \<Rightarrow> error + int tensor" where
  "tf_constant_int32 xs =
     (if list_all fits_int64 xs
      then Inr \<lparr>shape = [length xs], elems = map wrap_int32 xs\<rparr>
      else Inl ValueError)"

text \<open>
  \<^verbatim>\<open>dtensor.relayout(packed, Layout([UNSHARDED], client_mesh))\<close> of a tensor that is
  sharded over the clients: a collective operation in which every client receives the
  components of all clients, concatenated in client order. \<open>peers\<close> is what the clients
  hand to this collective, by client id: \<open>Some\<close> of the components a client packed,
  \<open>None\<close> for a client that never reaches the collective. The caller's own entry is
  the one it packed itself. With a peer missing the caller waits forever.
\<close>

definition relayout_unsharded ::
  "nat \<Rightarrow> 'a tensor list option list \<Rightarrow> 'a dtensor \<Rightarrow> error + 'a dtensor" where
  "relayout_unsharded cid peers packed =
     (case those (peers[cid := Some (components packed)]) of
        None \<Rightarrow> Inl Blocked
      | Some parts \<Rightarrow>
          Inr \<lparr>sharding_specs = [UNSHARDED],
               global_shape = global_shape packed,
               components = map (\<lambda>_. tf_concat (concat parts)) (components packed)\<rparr>)"

text \<open>\<^verbatim>\<open>replicated.numpy()\<close>: the value of a fully replicated tensor, from a local replica.\<close>

definition numpy :: "'a dtensor \<Rightarrow> error + 'a list" where
  "numpy dt = (case components dt of [] \<Rightarrow> Inl ValueError | c # _ \<Rightarrow> Inr (elems c))"

text \<open>
  \<^verbatim>\<open>np.unique\<close> sorts its argument and drops every element equal to its predecessor;
  \<^verbatim>\<open>np.sort\<close> sorts.
\<close>

definition np_unique :: "int list \<Rightarrow> int list" where
  "np_unique xs = remdups_adj (sort xs)"

definition np_sort :: "int list \<Rightarrow> int list" where
  "np_sort xs = sort xs"

definition unique_across_clients ::
  "int tensor list option list \<Rightarrow> int \<Rightarrow> 'l process \<Rightarrow> (error + int list) \<times> 'l process" where
  "unique_across_clients peers x p =
     (case ensure_client_mesh p of (cm, p') \<Rightarrow>
     (case tf_constant_int32 [x] of
        Inl e \<Rightarrow> (Inl e, p')
      | Inr c \<Rightarrow>
     (case dtensor_pack cm [c] [''clients''] of
        Inl e \<Rightarrow> (Inl e, p')
      | Inr packed \<Rightarrow>
     (case relayout_unsharded (client_id p') peers packed of
        Inl e \<Rightarrow> (Inl e, p')
      | Inr replicated \<Rightarrow>
     (case numpy replicated of
        Inl e \<Rightarrow> (Inl e, p')
      | Inr values \<Rightarrow> (Inr (np_sort (np_unique values)), p'))))))"

text \<open>
  One round of the collective: client \<open>i\<close> calls \<open>unique_across_clients\<close> with
  \<open>xs ! i\<close> and joins with the converted value. A client whose value cannot be
  converted raises before it packs, and so never joins.
\<close>

definition packed_value :: "int \<Rightarrow> int tensor list option" where
  "packed_value x = (case tf_constant_int32 [x] of Inl e \<Rightarrow> None | Inr c \<Rightarrow> Some [c])"

definition consensus_round :: "'l process list \<Rightarrow> int list \<Rightarrow> (error + int list) list" where
  "consensus_round ps xs =
     map (\<lambda>i. fst (unique_across_clients (map packed_value xs) (xs ! i) (ps ! i)))
       [0..<length xs]"

subsection \<open>The Input Partitioner: \<^verbatim>\<open>get_pipeline_params\<close> and \<^verbatim>\<open>get_dataset\<close>\<close>

text \<open>\<^verbatim>\<open>xs.index(x)\<close>: the first position of \<open>x\<close>; ValueError when there is none.\<close>

fun list_index :: "'a list \<Rightarrow> 'a \<Rightarrow> error + nat" where
  "list_index [] x = Inl ValueError"
| "list_index (y # ys) x =
     (if y = x then Inr 0
      else case list_index ys x of Inl e \<Rightarrow> Inl e | Inr i \<Rightarrow> Inr (Suc i))"

text \<open>\<^verbatim>\<open>min(replicas)\<close> raises ValueError for the empty set.\<close>

definition get_pipeline_params ::
  "int tensor list option list \<Rightarrow> mesh \<Rightarrow> 'l process \<Rightarrow> (error + pipeline_params) \<times> 'l process" where
  "get_pipeline_params peers m p =
     (case collect_replicas BATCH_DIM (local_device_locations m) {} of
        Inl e \<Rightarrow> (Inl e, p)
      | Inr replicas \<Rightarrow>
          if replicas = {} then (Inl ValueError, p)
          else
            (let first_replica = Min replicas in
             case unique_across_clients peers first_replica p of
               (Inl e, p') \<Rightarrow> (Inl e, p')
             | (Inr first_replicas, p') \<Rightarrow>
                 (case list_index first_replicas first_replica of
                    Inl e \<Rightarrow> (Inl e, p')
                  | Inr pipeline_id \<Rightarrow>
                      (Inr \<lparr>input_pipeline_id = pipeline_id,
                            num_input_pipelines = length first_replicas,
                            num_local_replicas_in_sync = card replicas\<rparr>, p'))))"

text \<open>
  What the client with mesh view \<open>m\<close> hands to the collective inside
  \<open>get_pipeline_params\<close>: its packed first replica, or nothing when it raises before.
\<close>

definition contribution :: "mesh \<Rightarrow> int tensor list option" where
  "contribution m =
     (case collect_replicas BATCH_DIM (local_device_locations m) {} of
        Inl e \<Rightarrow> None
      | Inr replicas \<Rightarrow> if replicas = {} then None else packed_value (Min replicas))"

text \<open>All clients of a run derive their pipeline parameters; client \<open>i\<close> sees \<open>ms ! i\<close>.\<close>

definition derive_partitions :: "'l process list \<Rightarrow> mesh list \<Rightarrow> (error + pipeline_params) list" where
  "derive_partitions ps ms =
     map (\<lambda>i. fst (get_pipeline_params (map contribution ms) (ms ! i) (ps ! i)))
       [0..<length ms]"

definition fresh_process :: "nat \<Rightarrow> nat \<Rightarrow> 'l process" where
  "fresh_process cid n =
     \<lparr>client_id = cid, num_clients = n, client_mesh = None, meshes_created = 0, stdout = []\<rparr>"

subsection \<open>Synthetic data and the client-local dataset: \<^verbatim>\<open>get_dataset\<close>\<close>

text \<open>
  NumPy's generator is a parameter of the model: \<open>random_state seed\<close> is the state of
  \<^verbatim>\<open>np.random.RandomState(seed)\<close>, and \<open>randint g high n\<close> draws \<open>n\<close> integers below
  \<open>high\<close> and returns them with the next state.
\<close>

record 'g generator =
  random_state :: "nat \<Rightarrow> 'g"
  randint :: "'g \<Rightarrow> nat \<Rightarrow> nat \<Rightarrow> int list \<times> 'g"

text \<open>\<^verbatim>\<open>rng.randint(high, size=size)\<close>: an array of the given shape.\<close>

definition randint_array :: "'g generator \<Rightarrow> 'g \<Rightarrow> nat \<Rightarrow> nat list \<Rightarrow> int tensor \<times> 'g" where
  "randint_array gen g high sz =
     (case randint gen g high (prod_list sz) of
        (xs, g2) \<Rightarrow> (\<lparr>shape = sz, elems = xs\<rparr>, g2))"

record synthetic =
  word_id_data :: "int tensor"
  mask_data :: "int tensor"
  type_id_data :: "int tensor"
  labels :: "int tensor"

text \<open>
  \<^verbatim>\<open>
  rng = np.random.RandomState(pipeline_params["input_pipeline_id"])
  word_id_data = rng.randint(vocab_size, size=(batch_size, sequence_length))
  mask_data = rng.randint(num_classes, size=(batch_size, sequence_length))
  type_id_data = rng.randint(num_classes, size=(batch_size, sequence_length))
  labels = rng.randint(num_classes, size=(batch_size))
  \<close>
\<close>

definition synthetic_data :: "'g generator \<Rightarrow> nat \<Rightarrow> synthetic" where
  "synthetic_data gen seed =
     (let rng = random_state gen seed in
      case randint_array gen rng vocab_size [batch_size, sequence_length] of (word_ids, rng) \<Rightarrow>
      case randint_array gen rng num_classes [batch_size, sequence_length] of (masks, rng) \<Rightarrow>
      case randint_array gen rng num_classes [batch_size, sequence_length] of (type_ids, rng) \<Rightarrow>
      case randint_array gen rng num_classes [batch_size] of (labs, rng) \<Rightarrow>
        \<lparr>word_id_data = word_ids, mask_data = masks, type_id_data = type_ids, labels = labs\<rparr>)"

text \<open>
  \<^verbatim>\<open>tf.data.Dataset.from_tensor_slices(...).repeat().batch(n)\<close>: the elements are the rows
  of the arrays along axis 0, repeated for ever; batch \<open>k\<close> stacks the elements
  \<open>k * n, ..., k * n + n - 1\<close> of that stream. The dataset is kept as the arrays and \<open>n\<close>.
  The arrays have one common number of rows; with no row the dataset is empty, also
  after \<^verbatim>\<open>repeat()\<close>, and its iterator is exhausted from the start.
\<close>

record dataset =
  source :: synthetic
  local_batch_size :: nat

definition batch_of :: "'a tensor \<Rightarrow> nat \<Rightarrow> nat \<Rightarrow> 'a tensor" where
  "batch_of t n k =
     (let width = prod_list (tl (shape t)) in
      \<lparr>shape = n # tl (shape t),
       elems = concat (map (\<lambda>j. take width (drop (((k * n + j) mod axis0 t) * width) (elems t)))
                         [0..<n])\<rparr>)"

definition exhausted :: "dataset \<Rightarrow> bool" where
  "exhausted ds =
     list_ex (\<lambda>t. axis0 t = 0)
       [word_id_data (source ds), mask_data (source ds), type_id_data (source ds),
        labels (source ds)]"

text \<open>
  \<^verbatim>\<open>next(iterator)\<close> at position \<open>k\<close> of the iterator; on an exhausted iterator it
  raises StopIteration.
\<close>

definition next_batch ::
  "dataset \<Rightarrow> nat \<Rightarrow> error + int tensor \<times> int tensor \<times> int tensor \<times> int tensor" where
  "next_batch ds k =
     (if exhausted ds then Inl StopIteration
      else Inr (batch_of (word_id_data (source ds)) (local_batch_size ds) k,
                batch_of (mask_data (source ds)) (local_batch_size ds) k,
                batch_of (type_id_data (source ds)) (local_batch_size ds) k,
                batch_of (labels (source ds)) (local_batch_size ds) k))"

text \<open>
  \<open>get_dataset\<close> returns the dataset and the closure \<^verbatim>\<open>shard_data\<close> with its defaults
  \<^verbatim>\<open>batch_dim=BATCH_DIM, mesh=mesh\<close>. Python's \<^verbatim>\<open>//\<close> raises ZeroDivisionError for a
  zero divisor, and \<^verbatim>\<open>batch(0)\<close> raises InvalidArgumentError.
\<close>

definition get_dataset ::
  "'g generator \<Rightarrow> int tensor list option list \<Rightarrow> mesh \<Rightarrow> 'l process
     \<Rightarrow> (error + dataset \<times> (int tensor \<Rightarrow> error + int dtensor)) \<times> 'l process" where
  "get_dataset gen peers m p =
     (case get_pipeline_params peers m p of
        (Inl e, p1) \<Rightarrow> (Inl e, p1)
      | (Inr params, p1) \<Rightarrow>
          (let p2 = dprint (Pipeline_Params params) p1;
               data = synthetic_data gen (input_pipeline_id params)
           in case dim_size m BATCH_DIM of
                Inl e \<Rightarrow> (Inl e, p2)
              | Inr n \<Rightarrow>
                  if n = 0 then (Inl ZeroDivisionError, p2)
                  else
                    (let client_local_batch_size =
                           batch_size div n * num_local_replicas_in_sync params
                     in if client_local_batch_size = 0 then (Inl InvalidArgumentError, p2)
                        else (Inr (\<lparr>source = data, local_batch_size = client_local_batch_size\<rparr>,
                                   shard_data m BATCH_DIM), p2))))"

subsection \<open>The Distributed Training Loop: \<^verbatim>\<open>train_model\<close>\<close>

text \<open>
  The model, the optimizer, the loss and the arithmetic of the loss values are external:
  \<open>train_step\<close> takes the state of model and optimizer and the packed batch, and returns
  the loss and the updated state. \<open>loss_zero\<close> is the float \<^verbatim>\<open>0.00\<close>, \<open>loss_add\<close> is
  \<^verbatim>\<open>+\<close> and \<open>loss_div\<close> is \<^verbatim>\<open>/\<close> by a non-zero integer. A loss value \<open>'l\<close> is a
  scalar: \<^verbatim>\<open>loss_obj\<close>, a \<^verbatim>\<open>SparseCategoricalCrossentropy\<close> with its default reduction,
  returns the mean over the batch.
\<close>

record ('m, 'l) trainer =
  train_step :: "'m \<Rightarrow> int dtensor list \<Rightarrow> int dtensor \<Rightarrow> 'l \<times> 'm"
  loss_zero :: 'l
  loss_add :: "'l \<Rightarrow> 'l \<Rightarrow> 'l"
  loss_div :: "'l \<Rightarrow> nat \<Rightarrow> 'l"

text \<open>\<^verbatim>\<open>tf.reduce_mean\<close> of a scalar, the mean of the one value: the scalar itself.\<close>

definition reduce_mean :: "'l \<Rightarrow> 'l" where
  "reduce_mean x = x"

text \<open>
  The inner loop \<^verbatim>\<open>for _ in range(steps_per_epoch)\<close>; \<open>it\<close> is the position of the
  iterator and \<open>total_loss\<close> the accumulator.
\<close>

fun steps_loop ::
  "('m, 'l) trainer \<Rightarrow> dataset \<Rightarrow> (int tensor \<Rightarrow> error + int dtensor) \<Rightarrow> nat \<Rightarrow> nat \<Rightarrow> 'm \<Rightarrow> 'l
     \<Rightarrow> error + ('l \<times> 'm \<times> nat)" where
  "steps_loop tr ds pack_fn 0 it model total_loss = Inr (total_loss, model, it)"
| "steps_loop tr ds pack_fn (Suc n) it model total_loss =
     (case next_batch ds it of
        Inl e \<Rightarrow> Inl e
      | Inr (word_id_batch, mask_batch, type_id_batch, labels_batch) \<Rightarrow>
     (case pack_fn word_id_batch of Inl e \<Rightarrow> Inl e | Inr d_word_id_data \<Rightarrow>
     (case pack_fn mask_batch of Inl e \<Rightarrow> Inl e | Inr d_mask_data \<Rightarrow>
     (case pack_fn type_id_batch of Inl e \<Rightarrow> Inl e | Inr d_type_id_data \<Rightarrow>
     (case pack_fn labels_batch of Inl e \<Rightarrow> Inl e | Inr d_labels \<Rightarrow>
     (case global_shape d_labels of
        [] \<Rightarrow> Inl IndexError
      | d0 # _ \<Rightarrow>
          if d0 \<noteq> batch_size then Inl AssertionError
          else
            (case train_step tr model [d_word_id_data, d_mask_data, d_type_id_data] d_labels of
               (loss, model') \<Rightarrow>
                 steps_loop tr ds pack_fn n (Suc it) model' (loss_add tr total_loss loss))))))))"

text \<open>
  The outer loop \<^verbatim>\<open>for epoch in range(num_epochs)\<close>. Before any step \<^verbatim>\<open>total_loss\<close> is
  the Python float \<^verbatim>\<open>0.00\<close>, and dividing it by the integer 0 raises ZeroDivisionError.
\<close>

fun epochs_loop ::
  "('m, 'l) trainer \<Rightarrow> dataset \<Rightarrow> (int tensor \<Rightarrow> error + int dtensor) \<Rightarrow> nat \<Rightarrow> nat \<Rightarrow> nat
     \<Rightarrow> nat \<Rightarrow> 'm \<Rightarrow> 'l process \<Rightarrow> 'l list \<Rightarrow> error + ('l list \<times> 'm \<times> 'l process)" where
  "epochs_loop tr ds pack_fn steps_per_epoch 0 epoch it model p train_losses =
     Inr (train_losses, model, p)"
| "epochs_loop tr ds pack_fn steps_per_epoch (Suc n) epoch it model p train_losses =
     (case steps_loop tr ds pack_fn steps_per_epoch it model (loss_zero tr) of
        Inl e \<Rightarrow> Inl e
      | Inr (total_loss, model', it') \<Rightarrow>
          if steps_per_epoch = 0 then Inl ZeroDivisionError
          else
            (let train_loss = reduce_mean (loss_div tr total_loss steps_per_epoch)
             in epochs_loop tr ds pack_fn steps_per_epoch n (Suc epoch) it' model'
                  (rprint (Epoch_Loss epoch train_loss) p) (train_losses @ [train_loss])))"

definition train_model ::
  "('m, 'l) trainer \<Rightarrow> 'm \<Rightarrow> dataset \<Rightarrow> (int tensor \<Rightarrow> error + int dtensor) \<Rightarrow> nat \<Rightarrow> nat
     \<Rightarrow> 'l process \<Rightarrow> error + ('l list \<times> 'm \<times> 'l process)" where
  "train_model tr model ds pack_fn steps_per_epoch num_epochs p =
     epochs_loop tr ds pack_fn steps_per_epoch num_epochs 0 0 model
       (rprint Training_started p) []"

subsection \<open>Notions used to state the properties\<close>

text \<open>
  The distinct batch-dimension coordinates among the local devices of a client, and the
  well-formedness of a client's view of the mesh: \<open>batch_dim\<close> is a dimension of the
  mesh, the client owns at least one device, and every local device has a coordinate
  along \<open>batch_dim\<close>.
\<close>

definition replica_ids :: "string \<Rightarrow> mesh \<Rightarrow> int set" where
  "replica_ids batch_dim m =
     set (List.map_filter (\<lambda>entry. map_of entry batch_dim) (local_device_locations m))"

definition has_coordinates :: "string \<Rightarrow> mesh \<Rightarrow> bool" where
  "has_coordinates batch_dim m =
     (batch_dim \<in> fst ` set (dims m) \<and> local_device_locations m \<noteq> [] \<and>
      list_all (\<lambda>entry. map_of entry batch_dim \<noteq> None) (local_device_locations m))"

text \<open>
  The \<open>k\<close>-th of \<open>n\<close> equal contiguous slices of a tensor along axis 0: rows
  \<open>k * (d0 div n)\<close> up to \<open>(k + 1) * (d0 div n)\<close>.
\<close>

definition contiguous_slice :: "'a tensor \<Rightarrow> nat \<Rightarrow> nat \<Rightarrow> 'a tensor" where
  "contiguous_slice t n k =
     (let rows = axis0 t div n; width = prod_list (tl (shape t))
      in \<lparr>shape = rows # tl (shape t),
          elems = take (rows * width) (drop (k * (rows * width)) (elems t))\<rparr>)"

text \<open>
  Re-assembly as the specification words it: for every distinct batch coordinate, in
  sorted order, the component held by the first local device with that coordinate;
  these are concatenated along axis 0.
\<close>

definition replica_component :: "string \<Rightarrow> mesh \<Rightarrow> 'a dtensor \<Rightarrow> int \<Rightarrow> 'a tensor option" where
  "replica_component batch_dim m dt c =
     map_option snd
       (find (\<lambda>(entry, comp). map_of entry batch_dim = Some c)
          (zip (local_device_locations m) (components dt)))"

definition reassemble :: "string \<Rightarrow> mesh \<Rightarrow> 'a dtensor \<Rightarrow> 'a tensor" where
  "reassemble batch_dim m dt =
     tf_concat (List.map_filter (replica_component batch_dim m dt)
                  (sorted_list_of_set (replica_ids batch_dim m)))"

text \<open>
  The representative of a client: the least batch coordinate of its local devices.
\<close>

definition representative :: "mesh \<Rightarrow> int" where
  "representative m = Min (replica_ids BATCH_DIM m)"

text \<open>
  The value of the auxiliary mesh of client \<open>i\<close> among \<open>n\<close> clients, and the states a
  process with that identity can be in: its cached client mesh, if any, has this value.
\<close>

definition client_mesh_value :: "nat \<Rightarrow> nat \<Rightarrow> mesh" where
  "client_mesh_value n i =
     \<lparr>dims = [(''clients'', n)], local_device_locations = [[(''clients'', int i)]]\<rparr>"

definition process_ok :: "nat \<Rightarrow> nat \<Rightarrow> 'l process \<Rightarrow> bool" where
  "process_ok n i p =
     (client_id p = i \<and> num_clients p = n \<and>
      (case client_mesh p of None \<Rightarrow> True | Some obj \<Rightarrow> snd obj = client_mesh_value n i))"

text \<open>
  The calls of the program that reach the global \<^verbatim>\<open>client_mesh\<close>, and the state of a
  process after a sequence of them.
\<close>

datatype call =
    Unique_across_clients "int tensor list option list" int
  | Get_pipeline_params "int tensor list option list" mesh

fun after_call :: "call \<Rightarrow> 'l process \<Rightarrow> 'l process" where
  "after_call (Unique_across_clients peers x) p = snd (unique_across_clients peers x p)"
| "after_call (Get_pipeline_params peers m) p = snd (get_pipeline_params peers m p)"

definition after_calls :: "call list \<Rightarrow> 'l process \<Rightarrow> 'l process" where
  "after_calls cs p = fold after_call cs p"

text \<open>
  The training loop, step by step. Batch \<open>k\<close> of a run is fine when the iterator
  yields it, its four tensors are packed without an error and the packed labels have
  the global extent \<open>batch_size\<close> along axis 0. \<open>model_after k\<close> is the state of
  model and optimizer after the first \<open>k\<close> training steps, on the batches
  \<open>0, ..., k - 1\<close> in this order; \<open>step_loss k\<close> is the loss of step \<open>k\<close>;
  \<open>epoch_loss\<close> is the accumulated loss of an epoch, the losses of its steps added up
  from \<open>loss_zero\<close> in step order, divided by \<open>steps_per_epoch\<close>.
\<close>

definition packed :: "(int tensor \<Rightarrow> error + int dtensor) \<Rightarrow> int tensor \<Rightarrow> int dtensor" where
  "packed pack_fn t =
     (case pack_fn t of
        Inl e \<Rightarrow> \<lparr>sharding_specs = [], global_shape = [], components = []\<rparr>
      | Inr d \<Rightarrow> d)"

definition succeeds :: "error + 'a \<Rightarrow> bool" where
  "succeeds r = (case r of Inl e \<Rightarrow> False | Inr v \<Rightarrow> True)"

definition batch_ok :: "(int tensor \<Rightarrow> error + int dtensor) \<Rightarrow> dataset \<Rightarrow> nat \<Rightarrow> bool" where
  "batch_ok pack_fn ds k =
     (case next_batch ds k of
        Inl e \<Rightarrow> False
      | Inr (word_id_batch, mask_batch, type_id_batch, labels_batch) \<Rightarrow>
          succeeds (pack_fn word_id_batch) \<and> succeeds (pack_fn mask_batch) \<and>
          succeeds (pack_fn type_id_batch) \<and> succeeds (pack_fn labels_batch) \<and>
          take 1 (global_shape (packed pack_fn labels_batch)) = [batch_size])"

definition step_outcome ::
  "('m, 'l) trainer \<Rightarrow> dataset \<Rightarrow> (int tensor \<Rightarrow> error + int dtensor) \<Rightarrow> nat \<Rightarrow> 'm \<Rightarrow> 'l \<times> 'm" where
  "step_outcome tr ds pack_fn k model =
     train_step tr model
       [packed pack_fn (batch_of (word_id_data (source ds)) (local_batch_size ds) k),
        packed pack_fn (batch_of (mask_data (source ds)) (local_batch_size ds) k),
        packed pack_fn (batch_of (type_id_data (source ds)) (local_batch_size ds) k)]
       (packed pack_fn (batch_of (labels (source ds)) (local_batch_size ds) k))"

fun model_after ::
  "('m, 'l) trainer \<Rightarrow> dataset \<Rightarrow> (int tensor \<Rightarrow> error + int dtensor) \<Rightarrow> 'm \<Rightarrow> nat \<Rightarrow> 'm" where
  "model_after tr ds pack_fn model 0 = model"
| "model_after tr ds pack_fn model (Suc k) =
     snd (step_outcome tr ds pack_fn k (model_after tr ds pack_fn model k))"

definition step_loss ::
  "('m, 'l) trainer \<Rightarrow> dataset \<Rightarrow> (int tensor \<Rightarrow> error + int dtensor) \<Rightarrow> 'm \<Rightarrow> nat \<Rightarrow> 'l" where
  "step_loss tr ds pack_fn model k =
     fst (step_outcome tr ds pack_fn k (model_after tr ds pack_fn model k))"

definition epoch_loss ::
  "('m, 'l) trainer \<Rightarrow> dataset \<Rightarrow> (int tensor \<Rightarrow> error + int dtensor) \<Rightarrow> 'm \<Rightarrow> nat \<Rightarrow> nat \<Rightarrow> 'l" where
  "epoch_loss tr ds pack_fn model steps_per_epoch epoch =
     loss_div tr
       (foldl (loss_add tr) (loss_zero tr)
          (map (step_loss tr ds pack_fn model)
             [epoch * steps_per_epoch..<epoch * steps_per_epoch + steps_per_epoch]))
       steps_per_epoch"

definition reports ::
  "('m, 'l) trainer \<Rightarrow> dataset \<Rightarrow> (int tensor \<Rightarrow> error + int dtensor) \<Rightarrow> 'm \<Rightarrow> nat \<Rightarrow> nat \<Rightarrow> nat
     \<Rightarrow> (nat \<times> 'l line) list" where
  "reports tr ds pack_fn model steps_per_epoch e n =
     map (\<lambda>epoch. (0, Epoch_Loss epoch (epoch_loss tr ds pack_fn model steps_per_epoch epoch)))
       [e..<e + n]"

subsection \<open>Concrete runs\<close>

text \<open>
  Two clients on the 4 x 2 mesh, four devices each: client A owns the devices with
  batch coordinates 0 and 1, client B those with batch coordinates 2 and 3.
\<close>

definition mesh_A :: mesh where
  "mesh_A = \<lparr>dims = mesh_dims, local_device_locations =
     [[(''batch'', 0), (''model'', 0)], [(''batch'', 0), (''model'', 1)],
      [(''batch'', 1), (''model'', 0)], [(''batch'', 1), (''model'', 1)]]\<rparr>"

definition mesh_B :: mesh where
  "mesh_B = \<lparr>dims = mesh_dims, local_device_locations =
     [[(''batch'', 2), (''model'', 0)], [(''batch'', 2), (''model'', 1)],
      [(''batch'', 3), (''model'', 0)], [(''batch'', 3), (''model'', 1)]]\<rparr>"

text \<open>
  A generator, two trainers and a dataset to run the definitions on: the generator
  counts upwards from its seed; the state of the model counts the training steps; the
  loss of a step is, for \<open>counting_trainer\<close>, the sum of the labels its devices hold
  and, for \<open>stepping_trainer\<close>, twice the number of the step. \<open>dataset_A\<close> is the
  dataset of client A.
\<close>

definition counting_generator :: "nat generator" where
  "counting_generator =
     \<lparr>random_state = (\<lambda>seed. seed),
      randint = (\<lambda>g high n. (map (\<lambda>j. int ((g + j) mod high)) [0..<n], g + n))\<rparr>"

definition counting_trainer :: "(nat, int) trainer" where
  "counting_trainer =
     \<lparr>train_step = (\<lambda>model features d_labels.
        (sum_list (map (\<lambda>c. sum_list (elems c)) (components d_labels)), Suc model)),
      loss_zero = 0,
      loss_add = (\<lambda>a b. a + b),
      loss_div = (\<lambda>a n. a div int n)\<rparr>"


definition dataset_A :: dataset where
  "dataset_A = \<lparr>source = synthetic_data counting_generator 0, local_batch_size = 16\<rparr>"

section \<open>Verification\<close>

subsection \<open>The Sharding Packer\<close>

lemma collect_replicas_ok:
  "list_all (\<lambda>entry. map_of entry d \<noteq> None) es \<Longrightarrow>
   collect_replicas d es S = Inr (S \<union> set (List.map_filter (\<lambda>entry. map_of entry d) es))"
proof (induction es arbitrary: S)
  case Nil
  then show ?case by (simp add: map_filter_simps)
next
  case (Cons e es)
  then obtain c where c: "map_of e d = Some c" by auto
  with Cons show ?case by (simp add: map_filter_simps)
qed

lemma fold_update_other:
  "k \<notin> set xs \<Longrightarrow>
   fold (\<lambda>(slice_id, replica_id) d. d(replica_id \<mapsto> slice_id)) (enumerate n xs) d0 k = d0 k"
  by (induction xs arbitrary: n d0) auto

lemma fold_update_nth:
  "distinct xs \<Longrightarrow> i < length xs \<Longrightarrow>
   fold (\<lambda>(slice_id, replica_id) d. d(replica_id \<mapsto> slice_id)) (enumerate n xs) d0 (xs ! i)
     = Some (n + i)"
proof (induction xs arbitrary: n d0 i)
  case Nil
  then show ?case by simp
next
  case (Cons x xs)
  show ?case
  proof (cases i)
    case 0
    from Cons.prems have "x \<notin> set xs" by simp
    from fold_update_other [OF this, of "Suc n" "d0(x \<mapsto> n)"] 0 show ?thesis
      by (simp del: fun_upd_apply) simp
  next
    case (Suc j)
    with Cons.prems Cons.IH [of j "Suc n" "d0(x \<mapsto> n)"] show ?thesis by simp
  qed
qed

lemma replica_to_slice_nth:
  "finite S \<Longrightarrow> i < card S \<Longrightarrow> replica_to_slice S (sorted_list_of_set S ! i) = Some i"
  using fold_update_nth [of "sorted_list_of_set S" i 0 Map.empty]
  by (simp add: replica_to_slice_def)

lemma replica_to_slice_mem:
  assumes "finite S" "c \<in> S"
  shows "\<exists>i < card S. replica_to_slice S c = Some i \<and> sorted_list_of_set S ! i = c"
proof -
  from assms have "c \<in> set (sorted_list_of_set S)" by simp
  then obtain i where i: "i < length (sorted_list_of_set S)" "sorted_list_of_set S ! i = c"
    by (auto simp: in_set_conv_nth)
  with assms replica_to_slice_nth [of S i] show ?thesis by auto
qed

lemma length_blocks: "length (blocks c n xs) = n"
  by (induction n arbitrary: xs) auto

lemma concat_blocks: "concat (blocks c n xs) = take (c * n) xs"
proof (induction n arbitrary: xs)
  case 0
  then show ?case by simp
next
  case (Suc n)
  have "take c xs @ take (c * n) (drop c xs) = take (c + c * n) xs"
    by (simp add: take_add)
  with Suc show ?case by simp
qed

lemma nth_blocks: "i < n \<Longrightarrow> blocks c n xs ! i = take c (drop (i * c) xs)"
proof (induction n arbitrary: xs i)
  case 0
  then show ?case by simp
next
  case (Suc n)
  show ?case
  proof (cases i)
    case 0
    then show ?thesis by simp
  next
    case (Suc j)
    with Suc.prems Suc.IH [of j "drop c xs"] show ?thesis by (simp add: add.commute)
  qed
qed

lemma pick_components_ok:
  assumes "list_all (\<lambda>entry. \<exists>c k. map_of entry d = Some c \<and> r2s c = Some k \<and> k < length slices) es"
  shows "pick_components d r2s slices es comps =
           Inr (comps @ map (\<lambda>entry. slices ! the (r2s (the (map_of entry d)))) es)"
  using assms
proof (induction es arbitrary: comps)
  case Nil
  then show ?case by simp
next
  case (Cons e es)
  then obtain c k where "map_of e d = Some c" "r2s c = Some k" "k < length slices" by auto
  with Cons show ?case by simp
qed


lemma tf_split_ok:
  assumes "shape t = d0 # rest" "n \<noteq> 0" "d0 mod n = 0"
  shows "\<exists>slices. tf_split t n = Inr slices \<and> length slices = n \<and>
           (\<forall>k<n. slices ! k = contiguous_slice t n k)"
  using assms
  by (simp add: tf_split_def length_blocks nth_blocks contiguous_slice_def axis0_def Let_def)

lemma tf_split_fails:
  "shape t = d0 # rest \<Longrightarrow> d0 mod n \<noteq> 0 \<Longrightarrow> tf_split t n = Inl InvalidArgumentError"
  by (simp add: tf_split_def)

lemma replica_ids_finite: "finite (replica_ids d m)"
  by (simp add: replica_ids_def)

lemma replica_ids_mem:
  "entry \<in> set (local_device_locations m) \<Longrightarrow> map_of entry d = Some c \<Longrightarrow> c \<in> replica_ids d m"
  by (force simp: replica_ids_def map_filter_def image_iff)

lemma replica_ids_nonempty:
  "has_coordinates d m \<Longrightarrow> card (replica_ids d m) \<noteq> 0"
proof -
  assume h: "has_coordinates d m"
  then obtain e es where es: "local_device_locations m = e # es"
    by (cases "local_device_locations m") (auto simp: has_coordinates_def)
  with h obtain c where "map_of e d = Some c" by (auto simp: has_coordinates_def)
  with es replica_ids_mem [of e m d c] have "c \<in> replica_ids d m" by simp
  with replica_ids_finite [of d m] show ?thesis by auto
qed

lemma shard_data_components:
  assumes wf: "has_coordinates d m" and sh: "shape t = d0 # rest"
    and dv: "d0 mod card (replica_ids d m) = 0"
  shows "\<exists>dt. shard_data m d t = Inr dt \<and>
           sharding_specs dt = d # replicate (length rest) UNSHARDED \<and>
           global_shape dt =
             map2 (\<lambda>n spec. n * num_shards m spec)
               ((d0 div card (replica_ids d m)) # rest) (sharding_specs dt) \<and>
           components dt =
             map (\<lambda>entry. contiguous_slice t (card (replica_ids d m))
                    (the (replica_to_slice (replica_ids d m) (the (map_of entry d)))))
               (local_device_locations m)"
proof -
  let ?S = "replica_ids d m" and ?locs = "local_device_locations m"
  from wf have keys: "list_all (\<lambda>entry. map_of entry d \<noteq> None) ?locs"
    and ne: "?locs \<noteq> []" and dm: "d \<in> fst ` set (dims m)"
    by (simp_all add: has_coordinates_def)
  have lay: "batch_sharded m d (length (shape t)) = Inr (d # replicate (length rest) UNSHARDED)"
    using dm sh by (simp add: batch_sharded_def)
  have col: "collect_replicas d ?locs {} = Inr ?S"
    using collect_replicas_ok [OF keys, of "{}"] by (simp add: replica_ids_def)
  from replica_ids_nonempty [OF wf] have R: "card ?S \<noteq> 0" .
  from tf_split_ok [OF sh R dv] obtain slices where
    sp: "tf_split t (card ?S) = Inr slices" and len: "length slices = card ?S"
    and nth: "\<forall>k<card ?S. slices ! k = contiguous_slice t (card ?S) k" by blast
  have each: "list_all (\<lambda>entry. \<exists>c k. map_of entry d = Some c \<and>
                  replica_to_slice ?S c = Some k \<and> k < length slices) ?locs"
    unfolding list_all_iff
  proof
    fix entry assume e: "entry \<in> set ?locs"
    with keys obtain c where c: "map_of entry d = Some c" by (auto simp: list_all_iff)
    from replica_ids_mem [OF e c] replica_to_slice_mem [OF replica_ids_finite, of c d m] len c
    show "\<exists>c k. map_of entry d = Some c \<and> replica_to_slice ?S c = Some k \<and> k < length slices"
      by auto
  qed
  let ?comps = "map (\<lambda>entry. slices ! the (replica_to_slice ?S (the (map_of entry d)))) ?locs"
  have pk: "pick_components d (replica_to_slice ?S) slices ?locs [] = Inr ?comps"
    using pick_components_ok [OF each, of "[]"] by simp
  have comps_eq: "?comps = map (\<lambda>entry. contiguous_slice t (card ?S)
                    (the (replica_to_slice ?S (the (map_of entry d))))) ?locs"
  proof (rule map_cong [OF refl])
    fix entry assume e: "entry \<in> set ?locs"
    with each obtain c k where "map_of entry d = Some c" "replica_to_slice ?S c = Some k"
      "k < length slices" by (auto simp: list_all_iff)
    with nth len show "slices ! the (replica_to_slice ?S (the (map_of entry d))) =
        contiguous_slice t (card ?S) (the (replica_to_slice ?S (the (map_of entry d))))"
      by simp
  qed
  obtain e es where es: "?locs = e # es" using ne by (cases ?locs) auto
  let ?cs = "map (\<lambda>entry. contiguous_slice t (card ?S)
                    (the (replica_to_slice ?S (the (map_of entry d))))) ?locs"
  have pack: "dtensor_pack m ?cs (d # replicate (length rest) UNSHARDED) =
      Inr \<lparr>sharding_specs = d # replicate (length rest) UNSHARDED,
           global_shape = map2 (\<lambda>n spec. n * num_shards m spec) ((d0 div card ?S) # rest)
                            (d # replicate (length rest) UNSHARDED),
           components = ?cs\<rparr>"
    using es sh by (simp add: dtensor_pack_def contiguous_slice_def axis0_def Let_def)
  from pk comps_eq have pk': "pick_components d (replica_to_slice ?S) slices ?locs [] = Inr ?cs"
    by simp
  show ?thesis
    using lay col sp pk' pack by (simp add: shard_data_def)
qed


lemma blocks_eq_map: "blocks c n xs = map (\<lambda>k. take c (drop (k * c) xs)) [0..<n]"
  by (rule nth_equalityI) (simp_all add: length_blocks nth_blocks)

lemma tf_concat_slices:
  assumes sh: "shape t = d0 # rest" and ok: "tensor_ok t" and n: "n \<noteq> 0" and dv: "d0 mod n = 0"
  shows "tf_concat (map (contiguous_slice t n) [0..<n]) = t"
proof -
  let ?c = "(d0 div n) * prod_list rest"
  have tot: "?c * n = length (elems t)"
  proof -
    from dv have "d0 div n * n = d0" by (simp add: mod_0_imp_dvd)
    then have "?c * n = d0 * prod_list rest" by (metis mult.assoc mult.commute)
    with ok sh show ?thesis by (simp add: tensor_ok_def)
  qed
  have "map elems (map (contiguous_slice t n) [0..<n]) = blocks ?c n (elems t)"
    using sh by (simp add: blocks_eq_map contiguous_slice_def axis0_def Let_def)
  then have el: "concat (map elems (map (contiguous_slice t n) [0..<n])) = elems t"
    using tot by (simp add: concat_blocks)
  have ax: "map axis0 (map (contiguous_slice t n) [0..<n]) = map (\<lambda>_. d0 div n) [0..<n]"
    using sh by (simp add: contiguous_slice_def axis0_def Let_def)
  have "sum_list (map axis0 (map (contiguous_slice t n) [0..<n])) =
          sum_list (map (\<lambda>_. d0 div n) [0..<n])"
    by (simp only: ax)
  also have "\<dots> = n * (d0 div n)"
    by (simp add: sum_list_triv)
  finally have "sum_list (map axis0 (map (contiguous_slice t n) [0..<n])) = n * (d0 div n)" .
  with dv have sm: "sum_list (map axis0 (map (contiguous_slice t n) [0..<n])) = d0"
    by (simp add: mod_0_imp_dvd)
  from n have up: "[0..<n] = 0 # [1..<n]" by (simp add: upt_conv_Cons)
  have tl0: "tl (shape (contiguous_slice t n 0)) = rest"
    using sh by (simp add: contiguous_slice_def Let_def)
  have "shape (tf_concat (map (contiguous_slice t n) [0..<n])) = d0 # rest"
    unfolding tf_concat_def using sm tl0 by (simp add: up)
  with el sh show ?thesis by (simp add: tf_concat_def)
qed

lemma find_zip_map:
  "find (\<lambda>(x, y). P x) (zip xs (map g xs)) = map_option (\<lambda>x. (x, g x)) (find P xs)"
  by (induction xs) auto

lemma find_coordinate:
  "c \<in> replica_ids d m \<Longrightarrow>
   \<exists>entry. find (\<lambda>entry. map_of entry d = Some c) (local_device_locations m) = Some entry \<and>
           map_of entry d = Some c"
proof -
  assume "c \<in> replica_ids d m"
  then obtain e where "e \<in> set (local_device_locations m)" "map_of e d = Some c"
    by (auto simp: replica_ids_def map_filter_def)
  then have "find (\<lambda>entry. map_of entry d = Some c) (local_device_locations m) \<noteq> None"
    by (auto simp: find_None_iff)
  then obtain entry where f: "find (\<lambda>entry. map_of entry d = Some c) (local_device_locations m) = Some entry"
    by auto
  then have "map_of entry d = Some c" by (auto simp: find_Some_iff)
  with f show ?thesis by blast
qed

lemma map_filter_all_Some:
  "(\<And>x. x \<in> set xs \<Longrightarrow> f x = Some (h x)) \<Longrightarrow> List.map_filter f xs = map h xs"
  by (induction xs) (simp_all add: map_filter_simps)

lemma reassemble_components:
  assumes comps: "components dt =
             map (\<lambda>entry. contiguous_slice t (card (replica_ids d m))
                    (the (replica_to_slice (replica_ids d m) (the (map_of entry d)))))
               (local_device_locations m)"
  shows "reassemble d m dt =
           tf_concat (map (contiguous_slice t (card (replica_ids d m))) [0..<card (replica_ids d m)])"
proof -
  let ?S = "replica_ids d m" and ?locs = "local_device_locations m"
  let ?g = "\<lambda>entry. contiguous_slice t (card ?S) (the (replica_to_slice ?S (the (map_of entry d))))"
  let ?h = "\<lambda>c. contiguous_slice t (card ?S) (the (replica_to_slice ?S c))"
  have rc: "replica_component d m dt c = Some (?h c)" if "c \<in> set (sorted_list_of_set ?S)" for c
  proof -
    from that have "c \<in> ?S" by (simp add: replica_ids_finite)
    from find_coordinate [OF this] obtain entry where
      "find (\<lambda>entry. map_of entry d = Some c) ?locs = Some entry" "map_of entry d = Some c"
      by blast
    then show ?thesis
      unfolding replica_component_def comps find_zip_map by simp
  qed
  have "List.map_filter (replica_component d m dt) (sorted_list_of_set ?S) =
          map ?h (sorted_list_of_set ?S)"
    by (rule map_filter_all_Some) (rule rc)
  also have "\<dots> = map (contiguous_slice t (card ?S)) [0..<card ?S]"
    by (rule nth_equalityI) (simp_all add: replica_to_slice_nth replica_ids_finite)
  finally show ?thesis by (simp add: reassemble_def)
qed

text \<open>
  Claim C1. For a client that owns devices on the batch dimension and a batch tensor
  whose axis-0 size is divisible by the number \<open>R\<close> of distinct batch coordinates of
  its local devices, \<open>shard_data\<close> returns a distributed tensor; concatenating, in
  sorted coordinate order, the component of each distinct replica gives back the input
  tensor, and two local devices with the same batch coordinate hold the same component.
\<close>

theorem shard_data_roundtrip:
  assumes "has_coordinates batch_dim m" and "shape t = d0 # rest" and "tensor_ok t"
    and "d0 mod card (replica_ids batch_dim m) = 0"
  shows "\<exists>dt. shard_data m batch_dim t = Inr dt \<and> reassemble batch_dim m dt = t \<and>
           (\<forall>i < length (local_device_locations m). \<forall>j < length (local_device_locations m).
              map_of (local_device_locations m ! i) batch_dim =
                map_of (local_device_locations m ! j) batch_dim \<longrightarrow>
              components dt ! i = components dt ! j)"
proof -
  from shard_data_components [OF assms(1,2,4)] obtain dt where
    dt: "shard_data m batch_dim t = Inr dt" and
    comps: "components dt =
             map (\<lambda>entry. contiguous_slice t (card (replica_ids batch_dim m))
                    (the (replica_to_slice (replica_ids batch_dim m) (the (map_of entry batch_dim)))))
               (local_device_locations m)"
    by blast
  have "reassemble batch_dim m dt = t"
    using reassemble_components [OF comps]
      tf_concat_slices [OF assms(2,3) replica_ids_nonempty [OF assms(1)] assms(4)]
    by simp
  moreover have "components dt ! i = components dt ! j"
    if "i < length (local_device_locations m)" "j < length (local_device_locations m)"
      "map_of (local_device_locations m ! i) batch_dim =
         map_of (local_device_locations m ! j) batch_dim" for i j
    using that by (simp add: comps)
  ultimately show ?thesis using dt by blast
qed

theorem shard_data_roundtrip_witness:
  "has_coordinates BATCH_DIM mesh_B \<and>
   tensor_ok \<lparr>shape = [4, 2], elems = [1, 2, 3, 4, 5, 6, 7, 8 :: int]\<rparr> \<and>
   4 mod card (replica_ids BATCH_DIM mesh_B) = 0 \<and>
   (\<exists>dt. shard_data mesh_B BATCH_DIM \<lparr>shape = [4, 2], elems = [1, 2, 3, 4, 5, 6, 7, 8 :: int]\<rparr> = Inr dt \<and>
      reassemble BATCH_DIM mesh_B dt = \<lparr>shape = [4, 2], elems = [1, 2, 3, 4, 5, 6, 7, 8 :: int]\<rparr> \<and>
      components dt ! 0 = components dt ! 1 \<and> components dt ! 2 = components dt ! 3)"
proof -
  let ?t = "\<lparr>shape = [4, 2], elems = [1, 2, 3, 4, 5, 6, 7, 8 :: int]\<rparr>"
  have h1: "has_coordinates BATCH_DIM mesh_B" by code_simp
  have h2: "shape ?t = 4 # [2]" by simp
  have h3: "tensor_ok ?t" by code_simp
  have h4: "4 mod card (replica_ids BATCH_DIM mesh_B) = 0" by code_simp
  have len: "length (local_device_locations mesh_B) = 4" by (simp add: mesh_B_def)
  have c01: "map_of (local_device_locations mesh_B ! 0) BATCH_DIM =
             map_of (local_device_locations mesh_B ! 1) BATCH_DIM"
    by (simp add: mesh_B_def BATCH_DIM_def)
  have c23: "map_of (local_device_locations mesh_B ! 2) BATCH_DIM =
             map_of (local_device_locations mesh_B ! 3) BATCH_DIM"
    by (simp add: mesh_B_def BATCH_DIM_def)
  from shard_data_roundtrip [OF h1 h2 h3 h4] obtain dt where
    dt: "shard_data mesh_B BATCH_DIM ?t = Inr dt" "reassemble BATCH_DIM mesh_B dt = ?t"
    and same: "\<forall>i < length (local_device_locations mesh_B).
            \<forall>j < length (local_device_locations mesh_B).
              map_of (local_device_locations mesh_B ! i) BATCH_DIM =
                map_of (local_device_locations mesh_B ! j) BATCH_DIM \<longrightarrow>
              components dt ! i = components dt ! j"
    by blast
  from same len c01 have "components dt ! 0 = components dt ! 1" by simp
  moreover from same len c23 have "components dt ! 2 = components dt ! 3" by simp
  ultimately show ?thesis using h1 h3 h4 dt by blast
qed

lemma shard_data_indivisible:
  assumes wf: "has_coordinates d m" and sh: "shape t = d0 # rest"
    and dv: "d0 mod card (replica_ids d m) \<noteq> 0"
  shows "shard_data m d t = Inl InvalidArgumentError"
proof -
  from wf have keys: "list_all (\<lambda>entry. map_of entry d \<noteq> None) (local_device_locations m)"
    and dm: "d \<in> fst ` set (dims m)"
    by (simp_all add: has_coordinates_def)
  have lay: "batch_sharded m d (length (shape t)) = Inr (d # replicate (length rest) UNSHARDED)"
    using dm sh by (simp add: batch_sharded_def)
  have col: "collect_replicas d (local_device_locations m) {} = Inr (replica_ids d m)"
    using collect_replicas_ok [OF keys, of "{}"] by (simp add: replica_ids_def)
  from lay col tf_split_fails [OF sh dv] show ?thesis by (simp add: shard_data_def)
qed

text \<open>
  Claim C5. When the axis-0 size is not divisible by \<open>R\<close>, \<open>shard_data\<close> fails with
  the shape error of \<^verbatim>\<open>tf.split\<close>. When it is, the components handed to the devices
  are exactly the \<open>R\<close> equal contiguous slices of the tensor along axis 0: the device
  whose batch coordinate has sorted rank \<open>k\<close> holds slice \<open>k\<close>, of \<open>d0 div R\<close>
  rows.
\<close>

theorem shard_data_split:
  assumes wf: "has_coordinates batch_dim m" and sh: "shape t = d0 # rest"
  shows "(d0 mod card (replica_ids batch_dim m) \<noteq> 0 \<longrightarrow>
            shard_data m batch_dim t = Inl InvalidArgumentError) \<and>
         (d0 mod card (replica_ids batch_dim m) = 0 \<longrightarrow>
            (\<exists>dt. shard_data m batch_dim t = Inr dt \<and>
               length (components dt) = length (local_device_locations m) \<and>
               set (components dt) =
                 contiguous_slice t (card (replica_ids batch_dim m)) `
                   {..<card (replica_ids batch_dim m)} \<and>
               (\<forall>i < length (local_device_locations m).
                  \<exists>k < card (replica_ids batch_dim m).
                    map_of (local_device_locations m ! i) batch_dim =
                      Some (sorted_list_of_set (replica_ids batch_dim m) ! k) \<and>
                    components dt ! i = contiguous_slice t (card (replica_ids batch_dim m)) k \<and>
                    shape (components dt ! i) =
                      (d0 div card (replica_ids batch_dim m)) # rest)))"
proof (intro conjI impI)
  assume "d0 mod card (replica_ids batch_dim m) \<noteq> 0"
  from shard_data_indivisible [OF wf sh this]
  show "shard_data m batch_dim t = Inl InvalidArgumentError" .
next
  let ?S = "replica_ids batch_dim m" and ?locs = "local_device_locations m"
  let ?cs = "contiguous_slice t (card ?S)"
  assume dv: "d0 mod card ?S = 0"
  from shard_data_components [OF wf sh dv] obtain dt where
    dt: "shard_data m batch_dim t = Inr dt" and
    comps: "components dt =
             map (\<lambda>entry. ?cs (the (replica_to_slice ?S (the (map_of entry batch_dim))))) ?locs"
    by blast
  from wf have keys: "list_all (\<lambda>entry. map_of entry batch_dim \<noteq> None) ?locs"
    by (simp add: has_coordinates_def)
  have each: "\<exists>k < card ?S. map_of (?locs ! i) batch_dim = Some (sorted_list_of_set ?S ! k) \<and>
                components dt ! i = ?cs k \<and> shape (components dt ! i) = (d0 div card ?S) # rest"
    if i: "i < length ?locs" for i
  proof -
    from i have mem: "?locs ! i \<in> set ?locs" by simp
    with keys obtain c where c: "map_of (?locs ! i) batch_dim = Some c"
      by (auto simp: list_all_iff)
    from replica_to_slice_mem [OF replica_ids_finite replica_ids_mem [OF mem c]]
    obtain k where k: "k < card ?S" "replica_to_slice ?S c = Some k"
      "sorted_list_of_set ?S ! k = c" by blast
    have "shape (?cs k) = (d0 div card ?S) # rest"
      using sh by (simp add: contiguous_slice_def axis0_def Let_def)
    with i c k show ?thesis by (auto simp: comps)
  qed
  have "set (components dt) = ?cs ` {..<card ?S}"
  proof (intro equalityI subsetI)
    fix x assume "x \<in> set (components dt)"
    then obtain i where i: "i < length ?locs" "x = components dt ! i"
      by (auto simp: comps in_set_conv_nth)
    with each [of i] show "x \<in> ?cs ` {..<card ?S}" by auto
  next
    fix x assume "x \<in> ?cs ` {..<card ?S}"
    then obtain k where k: "k < card ?S" "x = ?cs k" by auto
    then have "sorted_list_of_set ?S ! k \<in> ?S"
      using nth_mem [of k "sorted_list_of_set ?S"] by (simp add: replica_ids_finite)
    then obtain entry where e: "entry \<in> set ?locs"
      "map_of entry batch_dim = Some (sorted_list_of_set ?S ! k)"
      by (auto simp: replica_ids_def map_filter_def)
    with k replica_to_slice_nth [OF replica_ids_finite, of k batch_dim m]
    have "?cs (the (replica_to_slice ?S (the (map_of entry batch_dim)))) = x" by simp
    with e(1) show "x \<in> set (components dt)" by (force simp: comps)
  qed
  with dt each show "\<exists>dt. shard_data m batch_dim t = Inr dt \<and>
       length (components dt) = length ?locs \<and>
       set (components dt) = ?cs ` {..<card ?S} \<and>
       (\<forall>i < length ?locs. \<exists>k < card ?S.
          map_of (?locs ! i) batch_dim = Some (sorted_list_of_set ?S ! k) \<and>
          components dt ! i = ?cs k \<and>
          shape (components dt ! i) = (d0 div card ?S) # rest)"
    by (auto simp: comps)
qed

theorem shard_data_split_witness:
  "has_coordinates BATCH_DIM mesh_B \<and> card (replica_ids BATCH_DIM mesh_B) = 2 \<and>
   shard_data mesh_B BATCH_DIM \<lparr>shape = [3, 2], elems = [1, 2, 3, 4, 5, 6 :: int]\<rparr> =
     Inl InvalidArgumentError \<and>
   (\<exists>dt. shard_data mesh_B BATCH_DIM \<lparr>shape = [4, 2], elems = [1, 2, 3, 4, 5, 6, 7, 8 :: int]\<rparr> =
            Inr dt \<and>
          length (components dt) = 4 \<and>
          set (components dt) =
            {\<lparr>shape = [2, 2], elems = [1, 2, 3, 4]\<rparr>, \<lparr>shape = [2, 2], elems = [5, 6, 7, 8]\<rparr>})"
proof -
  let ?t3 = "\<lparr>shape = [3, 2], elems = [1, 2, 3, 4, 5, 6 :: int]\<rparr>"
  let ?t4 = "\<lparr>shape = [4, 2], elems = [1, 2, 3, 4, 5, 6, 7, 8 :: int]\<rparr>"
  have h: "has_coordinates BATCH_DIM mesh_B" by code_simp
  have c: "card (replica_ids BATCH_DIM mesh_B) = 2" by code_simp
  have len: "length (local_device_locations mesh_B) = 4" by (simp add: mesh_B_def)
  have s0: "contiguous_slice ?t4 2 0 = \<lparr>shape = [2, 2], elems = [1, 2, 3, 4]\<rparr>" by code_simp
  have s1: "contiguous_slice ?t4 2 1 = \<lparr>shape = [2, 2], elems = [5, 6, 7, 8]\<rparr>" by code_simp
  have two: "{..<2::nat} = {0, 1}" by auto
  from shard_data_split [OF h, of ?t3 3 "[2]"] c
  have a: "shard_data mesh_B BATCH_DIM ?t3 = Inl InvalidArgumentError" by simp
  from shard_data_split [OF h, of ?t4 4 "[2]"] c len obtain dt where
    "shard_data mesh_B BATCH_DIM ?t4 = Inr dt" "length (components dt) = 4"
    "set (components dt) = contiguous_slice ?t4 2 ` {..<2}"
    by auto
  with s0 s1 two have "\<exists>dt. shard_data mesh_B BATCH_DIM ?t4 = Inr dt \<and> length (components dt) = 4 \<and>
          set (components dt) =
            {\<lparr>shape = [2, 2], elems = [1, 2, 3, 4]\<rparr>, \<lparr>shape = [2, 2], elems = [5, 6, 7, 8]\<rparr>}"
    by auto
  with h c a show ?thesis by blast
qed

subsection \<open>Cross-client consensus\<close>

lemma distinct_remdups_adj_sorted: "sorted xs \<Longrightarrow> distinct (remdups_adj xs)"
  by (induction xs rule: remdups_adj.induct) auto

lemma np_sort_unique: "np_sort (np_unique xs) = sorted_list_of_set (set xs)"
proof -
  have s: "sorted (remdups_adj (sort xs))" by simp
  have d: "distinct (remdups_adj (sort xs))" by (simp add: distinct_remdups_adj_sorted)
  have "remdups_adj (sort xs) = sorted_list_of_set (set xs)"
    by (rule sorted_distinct_set_unique [OF s d]) simp_all
  then show ?thesis by (simp add: np_sort_def np_unique_def sorted_sort_id)
qed

lemma those_map_Some: "those (map Some ys) = Some ys"
  by (induction ys) simp_all

lemma ensure_client_mesh_ok:
  assumes "process_ok n i p"
  shows "\<exists>p'. ensure_client_mesh p = (client_mesh_value n i, p') \<and> process_ok n i p' \<and>
           stdout p' = stdout p"
  using assms
  by (auto simp: ensure_client_mesh_def create_client_mesh_def process_ok_def client_mesh_value_def
      split: option.splits)

lemma wrap_int32_fits: "fits_int32 x \<Longrightarrow> wrap_int32 x = x"
  by (simp add: wrap_int32_def fits_int32_def)

lemma fits_int32_int64: "fits_int32 x \<Longrightarrow> fits_int64 x"
  by (simp add: fits_int32_def fits_int64_def)

lemma tf_constant_int32_fits:
  "fits_int32 x \<Longrightarrow> tf_constant_int32 [x] = Inr \<lparr>shape = [1], elems = [x]\<rparr>"
  by (simp add: tf_constant_int32_def wrap_int32_fits fits_int32_int64)

lemma packed_value_fits:
  "fits_int32 x \<Longrightarrow> packed_value x = Some [\<lparr>shape = [1], elems = [x]\<rparr>]"
  by (simp add: packed_value_def tf_constant_int32_fits)

lemma elems_tf_concat: "elems (tf_concat ts) = concat (map elems ts)"
  by (simp add: tf_concat_def)

lemma unique_across_clients_result:
  assumes fits: "list_all fits_int32 xs" and i: "i < length xs"
    and ok: "process_ok (length xs) i p"
  shows "fst (unique_across_clients (map packed_value xs) (xs ! i) p) =
           Inr (sorted_list_of_set (set xs))"
proof -
  from ensure_client_mesh_ok [OF ok] obtain p' where
    e: "ensure_client_mesh p = (client_mesh_value (length xs) i, p')" and
    ok': "process_ok (length xs) i p'" by blast
  from fits i have fi: "fits_int32 (xs ! i)" by (simp add: list_all_length)
  then have c: "tf_constant_int32 [xs ! i] = Inr \<lparr>shape = [1], elems = [xs ! i]\<rparr>"
    by (rule tf_constant_int32_fits)
  have pk: "dtensor_pack (client_mesh_value (length xs) i) [\<lparr>shape = [1], elems = [xs ! i]\<rparr>]
              [''clients''] =
            Inr \<lparr>sharding_specs = [''clients''], global_shape = [length xs],
                 components = [\<lparr>shape = [1], elems = [xs ! i]\<rparr>]\<rparr>"
    by (simp add: dtensor_pack_def client_mesh_value_def num_shards_def UNSHARDED_def)
  have peers: "map packed_value xs = map Some (map (\<lambda>x. [\<lparr>shape = [1], elems = [x]\<rparr>]) xs)"
    using fits by (induction xs) (simp_all add: packed_value_fits)
  have own: "(map packed_value xs)[i := Some [\<lparr>shape = [1], elems = [xs ! i]\<rparr>]] = map packed_value xs"
    using i fi by (simp add: list_update_same_conv packed_value_fits)
  have rl: "relayout_unsharded i (map packed_value xs)
              \<lparr>sharding_specs = [''clients''], global_shape = [length xs],
               components = [\<lparr>shape = [1], elems = [xs ! i]\<rparr>]\<rparr> =
            Inr \<lparr>sharding_specs = [UNSHARDED], global_shape = [length xs],
                 components = [tf_concat (map (\<lambda>x. \<lparr>shape = [1], elems = [x]\<rparr>) xs)]\<rparr>"
  proof -
    have "those ((map packed_value xs)[i := Some [\<lparr>shape = [1], elems = [xs ! i]\<rparr>]]) =
            Some (map (\<lambda>x. [\<lparr>shape = [1], elems = [x]\<rparr>]) xs)"
      by (subst own) (simp only: peers those_map_Some)
    then show ?thesis by (simp add: relayout_unsharded_def del: One_nat_def)
  qed
  have np: "numpy \<lparr>sharding_specs = [UNSHARDED], global_shape = [length xs],
                 components = [tf_concat (map (\<lambda>x. \<lparr>shape = [1], elems = [x]\<rparr>) xs)]\<rparr>
            = Inr xs"
    by (simp add: numpy_def elems_tf_concat comp_def del: One_nat_def)
  from ok' have cid: "client_id p' = i" by (simp add: process_ok_def)
  show ?thesis
    by (simp add: unique_across_clients_def e c pk cid rl np np_sort_unique del: One_nat_def)
qed

text \<open>
  Claim C4, as amended. In a round in which every client calls
  \<open>unique_across_clients\<close> with a value that fits a signed 32-bit integer, every
  client receives the same list: the distinct values submitted by the clients, sorted in
  ascending order. Client \<open>i\<close> of the \<open>length xs\<close> clients submits \<open>xs ! i\<close> from
  the process state \<open>ps ! i\<close>, in which the client mesh is not yet built or is the
  one this process built before.
\<close>

theorem consensus_round_int32:
  assumes "list_all fits_int32 xs" and "length ps = length xs"
    and "\<forall>i < length xs. process_ok (length xs) i (ps ! i)"
  shows "consensus_round ps xs = replicate (length xs) (Inr (sorted_list_of_set (set xs)))"
  using assms
  by (intro nth_equalityI) (simp_all add: consensus_round_def unique_across_clients_result)

theorem consensus_round_int32_witness:
  "list_all fits_int32 [5, - 2, 5] \<and>
   list_all (\<lambda>i. process_ok 3 i (fresh_process i 3 :: unit process)) [0, 1, 2] \<and>
   consensus_round [fresh_process 0 3, fresh_process 1 3, fresh_process 2 3 :: unit process]
     [5, - 2, 5] = [Inr [- 2, 5], Inr [- 2, 5], Inr [- 2, 5]]"
proof -
  let ?ps = "[fresh_process 0 3, fresh_process 1 3, fresh_process 2 3 :: unit process]"
  have h1: "list_all fits_int32 [5, - 2, 5]" by (simp add: fits_int32_def)
  have h2: "length ?ps = length [5, - 2, 5 :: int]" by simp
  have h3: "\<forall>i < length [5, - 2, 5 :: int]. process_ok (length [5, - 2, 5 :: int]) i (?ps ! i)"
    by (simp add: process_ok_def fresh_process_def less_Suc_eq)
  have s: "sorted_list_of_set (set [5, - 2, 5 :: int]) = [- 2, 5]" by code_simp
  have h4: "list_all (\<lambda>i. process_ok 3 i (fresh_process i 3 :: unit process)) [0, 1, 2]"
    by (simp add: process_ok_def fresh_process_def)
  from consensus_round_int32 [OF h1 h2 h3] s h1 h4 show ?thesis
    by (simp add: numeral_3_eq_3)
qed

text \<open>
  The claim as stated, for every integer, fails: the values are converted to
  \<^verbatim>\<open>tf.int32\<close>, so a single client that submits \<open>2 ^ 31\<close> receives the list of the
  wrapped value \<open>- (2 ^ 31)\<close>, not of the value it submitted.
\<close>

theorem consensus_round_wraps:
  "consensus_round [fresh_process 0 1 :: unit process] [2147483648] = [Inr [- 2147483648]] \<and>
   consensus_round [fresh_process 0 1 :: unit process] [2147483648] \<noteq>
     replicate 1 (Inr (sorted_list_of_set (set [2147483648])))"
  by code_simp

subsection \<open>The Input Partitioner\<close>

lemma list_index_mem:
  "x \<in> set xs \<Longrightarrow>
   \<exists>k. list_index xs x = Inr k \<and> k < length xs \<and> xs ! k = x \<and> (\<forall>j<k. xs ! j \<noteq> x)"
proof (induction xs)
  case Nil
  then show ?case by simp
next
  case (Cons y ys)
  show ?case
  proof (cases "y = x")
    case True
    then show ?thesis by simp
  next
    case False
    with Cons obtain k where k: "list_index ys x = Inr k" "k < length ys" "ys ! k = x"
      "\<forall>j<k. ys ! j \<noteq> x" by auto
    have "\<forall>j<Suc k. (y # ys) ! j \<noteq> x"
    proof (intro allI impI)
      fix j assume "j < Suc k"
      with k(4) False show "(y # ys) ! j \<noteq> x" by (cases j) auto
    qed
    with False k show ?thesis by simp
  qed
qed

lemma those_Some: "those ys = Some parts \<Longrightarrow> ys = map Some parts"
  by (induction ys arbitrary: parts) (auto split: option.splits)

lemma ensure_client_mesh_id: "ensure_client_mesh p = (cm, q) \<Longrightarrow> client_id q = client_id p"
  by (auto simp: ensure_client_mesh_def create_client_mesh_def split: option.splits)

lemma unique_across_clients_mem:
  assumes u: "unique_across_clients peers x p = (Inr s, p')" and cid: "client_id p < length peers"
  shows "wrap_int32 x \<in> set s"
proof -
  obtain cm q where e: "ensure_client_mesh p = (cm, q)" by (cases "ensure_client_mesh p")
  from ensure_client_mesh_id [OF e] cid have q: "client_id q < length peers" by simp
  from u e obtain c packed replicated vals where
    c: "tf_constant_int32 [x] = Inr c" and
    pk: "dtensor_pack cm [c] [''clients''] = Inr packed" and
    rl: "relayout_unsharded (client_id q) peers packed = Inr replicated" and
    np: "numpy replicated = Inr vals" and
    s: "s = np_sort (np_unique vals)"
    by (auto simp: unique_across_clients_def split: sum.splits)
  from c have cx: "elems c = [wrap_int32 x]"
    by (auto simp: tf_constant_int32_def split: if_splits)
  from pk have comps: "components packed = [c]"
    by (auto simp: dtensor_pack_def split: if_splits)
  from rl comps obtain parts where
    th: "those (peers[client_id q := Some [c]]) = Some parts" and
    rc: "components replicated = [tf_concat (concat parts)]"
    by (auto simp: relayout_unsharded_def split: option.splits)
  from those_Some [OF th] have "peers[client_id q := Some [c]] = map Some parts" .
  then have "(peers[client_id q := Some [c]]) ! client_id q = map Some parts ! client_id q"
    and "length parts = length peers"
    by (simp_all, metis length_list_update length_map)
  with q have "parts ! client_id q = [c]" by simp
  with q \<open>length parts = length peers\<close> have "[c] \<in> set parts"
    by (metis nth_mem)
  then have "c \<in> set (concat parts)" by (auto intro: bexI [of _ "[c]"])
  with cx have "wrap_int32 x \<in> set (concat (map elems (concat parts)))" by force
  with np rc have "wrap_int32 x \<in> set vals"
    by (auto simp: numpy_def elems_tf_concat)
  with s show ?thesis by (simp add: np_sort_def np_unique_def)
qed

lemma collect_local_replicas:
  "has_coordinates d m \<Longrightarrow>
   collect_replicas d (local_device_locations m) {} = Inr (replica_ids d m) \<and>
   replica_ids d m \<noteq> {}"
proof -
  assume wf: "has_coordinates d m"
  then have keys: "list_all (\<lambda>entry. map_of entry d \<noteq> None) (local_device_locations m)"
    by (simp add: has_coordinates_def)
  from replica_ids_nonempty [OF wf] have "replica_ids d m \<noteq> {}" by auto
  with collect_replicas_ok [OF keys, of "{}"] show ?thesis by (simp add: replica_ids_def)
qed

lemma get_pipeline_params_index:
  assumes wf: "has_coordinates BATCH_DIM m" and cid: "client_id p < length peers"
    and fits: "fits_int32 (Min (replica_ids BATCH_DIM m))"
    and u: "unique_across_clients peers (Min (replica_ids BATCH_DIM m)) p = (Inr s, p')"
  shows "\<exists>k. get_pipeline_params peers m p =
               (Inr \<lparr>input_pipeline_id = k, num_input_pipelines = length s,
                     num_local_replicas_in_sync = card (replica_ids BATCH_DIM m)\<rparr>, p') \<and>
             k < length s \<and> s ! k = Min (replica_ids BATCH_DIM m) \<and>
             (\<forall>j<k. s ! j \<noteq> Min (replica_ids BATCH_DIM m))"
proof -
  from collect_local_replicas [OF wf] have
    col: "collect_replicas BATCH_DIM (local_device_locations m) {} = Inr (replica_ids BATCH_DIM m)"
    and ne: "replica_ids BATCH_DIM m \<noteq> {}" by simp_all
  from unique_across_clients_mem [OF u cid] wrap_int32_fits [OF fits]
  have "Min (replica_ids BATCH_DIM m) \<in> set s" by simp
  from list_index_mem [OF this] obtain k where
    k: "list_index s (Min (replica_ids BATCH_DIM m)) = Inr k" "k < length s"
    "s ! k = Min (replica_ids BATCH_DIM m)" "\<forall>j<k. s ! j \<noteq> Min (replica_ids BATCH_DIM m)"
    by blast
  have "get_pipeline_params peers m p =
          (Inr \<lparr>input_pipeline_id = k, num_input_pipelines = length s,
                num_local_replicas_in_sync = card (replica_ids BATCH_DIM m)\<rparr>, p')"
    by (simp add: get_pipeline_params_def col ne u k(1))
  with k show ?thesis by blast
qed

lemma contribution_representative:
  "has_coordinates BATCH_DIM m \<Longrightarrow> contribution m = packed_value (representative m)"
  using collect_local_replicas [of BATCH_DIM m]
  by (simp add: contribution_def representative_def)

lemma derive_partitions_nth:
  assumes len: "length ps = length ms"
    and ok: "\<forall>i < length ms. has_coordinates BATCH_DIM (ms ! i) \<and>
               fits_int32 (representative (ms ! i)) \<and> process_ok (length ms) i (ps ! i)"
    and i: "i < length ms"
  shows "\<exists>k. derive_partitions ps ms ! i =
               Inr \<lparr>input_pipeline_id = k,
                    num_input_pipelines = card (set (map representative ms)),
                    num_local_replicas_in_sync = card (replica_ids BATCH_DIM (ms ! i))\<rparr> \<and>
             k < card (set (map representative ms)) \<and>
             sorted_list_of_set (set (map representative ms)) ! k = representative (ms ! i)"
proof -
  let ?reps = "map representative ms"
  let ?s = "sorted_list_of_set (set ?reps)"
  have peers: "map contribution ms = map packed_value ?reps"
    using ok by (intro nth_equalityI) (simp_all add: contribution_representative)
  have fits: "list_all fits_int32 ?reps"
    using ok by (simp add: list_all_length)
  from i have i': "i < length ?reps" by simp
  from ok i have pok: "process_ok (length ?reps) i (ps ! i)" by simp
  from unique_across_clients_result [OF fits i' pok] i
  have u: "fst (unique_across_clients (map packed_value ?reps) (representative (ms ! i)) (ps ! i)) =
             Inr ?s" by simp
  obtain p' where u': "unique_across_clients (map packed_value ?reps)
      (Min (replica_ids BATCH_DIM (ms ! i))) (ps ! i) = (Inr ?s, p')"
    using u by (cases "unique_across_clients (map packed_value ?reps)
      (representative (ms ! i)) (ps ! i)") (simp add: representative_def)
  from ok i have wf: "has_coordinates BATCH_DIM (ms ! i)" by simp
  from pok i have cid: "client_id (ps ! i) < length (map packed_value ?reps)"
    by (simp add: process_ok_def)
  from ok i have fm: "fits_int32 (Min (replica_ids BATCH_DIM (ms ! i)))"
    by (simp add: representative_def)
  from get_pipeline_params_index [OF wf cid fm u'] obtain k where
    k: "get_pipeline_params (map packed_value ?reps) (ms ! i) (ps ! i) =
          (Inr \<lparr>input_pipeline_id = k, num_input_pipelines = length ?s,
                num_local_replicas_in_sync = card (replica_ids BATCH_DIM (ms ! i))\<rparr>, p')"
      "k < length ?s" "?s ! k = Min (replica_ids BATCH_DIM (ms ! i))"
    by blast
  have ls: "length ?s = card (set ?reps)" by simp
  from k i show ?thesis
    unfolding derive_partitions_def peers ls representative_def by auto
qed

text \<open>
  Claim C3. For every client of a run, the representative is the minimum of the
  distinct batch coordinates of its local devices; the consensus over the
  representatives of all clients returns their sorted set; \<open>input_pipeline_id\<close> is the
  index of the client's representative in that sorted set, \<open>num_input_pipelines\<close> is
  the size of the set, and \<open>num_local_replicas_in_sync\<close> is the number of distinct
  batch coordinates the client owns. In the run, client \<open>i\<close> sees the mesh \<open>ms ! i\<close>,
  in which it owns devices on the batch dimension, with coordinates that \<^verbatim>\<open>tf.int32\<close>
  holds.
\<close>

theorem derive_partitions_params:
  assumes len: "length ps = length ms"
    and ok: "\<forall>i < length ms. has_coordinates BATCH_DIM (ms ! i) \<and>
               fits_int32 (representative (ms ! i)) \<and> process_ok (length ms) i (ps ! i)"
    and i: "i < length ms"
  shows "representative (ms ! i) = Min (replica_ids BATCH_DIM (ms ! i)) \<and>
         consensus_round ps (map representative ms) ! i =
           Inr (sorted_list_of_set (set (map representative ms))) \<and>
         (\<exists>k. derive_partitions ps ms ! i =
                Inr \<lparr>input_pipeline_id = k,
                     num_input_pipelines =
                       length (sorted_list_of_set (set (map representative ms))),
                     num_local_replicas_in_sync = card (replica_ids BATCH_DIM (ms ! i))\<rparr> \<and>
              k < length (sorted_list_of_set (set (map representative ms))) \<and>
              sorted_list_of_set (set (map representative ms)) ! k = representative (ms ! i))"
proof -
  have fits: "list_all fits_int32 (map representative ms)"
    using ok by (simp add: list_all_length)
  from i have i': "i < length (map representative ms)" by simp
  from ok i have pok: "process_ok (length (map representative ms)) i (ps ! i)" by simp
  from unique_across_clients_result [OF fits i' pok] i
  have c: "consensus_round ps (map representative ms) ! i =
             Inr (sorted_list_of_set (set (map representative ms)))"
    by (simp add: consensus_round_def)
  from derive_partitions_nth [OF len ok i] c show ?thesis
    by (simp add: representative_def)
qed

theorem derive_partitions_params_witness:
  "has_coordinates BATCH_DIM mesh_A \<and> has_coordinates BATCH_DIM mesh_B \<and>
   map representative [mesh_A, mesh_B] = [0, 2] \<and> fits_int32 0 \<and> fits_int32 2 \<and>
   process_ok 2 0 (fresh_process 0 2 :: unit process) \<and>
   process_ok 2 1 (fresh_process 1 2 :: unit process) \<and>
   consensus_round [fresh_process 0 2, fresh_process 1 2 :: unit process] [0, 2] ! 1 =
     Inr [0, 2] \<and>
   derive_partitions [fresh_process 0 2, fresh_process 1 2 :: unit process] [mesh_A, mesh_B] ! 1 =
     Inr \<lparr>input_pipeline_id = 1, num_input_pipelines = 2, num_local_replicas_in_sync = 2\<rparr>"
proof -
  let ?ps = "[fresh_process 0 2, fresh_process 1 2 :: unit process]"
  let ?ms = "[mesh_A, mesh_B]"
  have a: "has_coordinates BATCH_DIM mesh_A" by code_simp
  have b: "has_coordinates BATCH_DIM mesh_B" by code_simp
  have ra: "representative mesh_A = 0" by code_simp
  have rb: "representative mesh_B = 2" by code_simp
  have cd: "card (replica_ids BATCH_DIM mesh_B) = 2" by code_simp
  have h1: "length ?ps = length ?ms" by simp
  have h2: "\<forall>i < length ?ms. has_coordinates BATCH_DIM (?ms ! i) \<and>
               fits_int32 (representative (?ms ! i)) \<and> process_ok (length ?ms) i (?ps ! i)"
    using a b ra rb
    by (simp add: less_Suc_eq fits_int32_def process_ok_def fresh_process_def)
  have h3: "1 < length ?ms" by simp
  have s: "sorted_list_of_set (set [0, 2 :: int]) = [0, 2]" by code_simp
  from derive_partitions_params [OF h1 h2 h3] ra rb s cd obtain k where
    c: "consensus_round ?ps [0, 2] ! 1 = Inr [0, 2]" and
    k: "derive_partitions ?ps ?ms ! 1 =
          Inr \<lparr>input_pipeline_id = k, num_input_pipelines = 2, num_local_replicas_in_sync = 2\<rparr>"
      "k < 2" "[0, 2 :: int] ! k = 2"
    by auto
  from k(2,3) have "k = 1" by (cases k) auto
  moreover have "fits_int32 0 \<and> fits_int32 2" by (simp add: fits_int32_def)
  moreover have "process_ok 2 0 (fresh_process 0 2 :: unit process) \<and>
      process_ok 2 1 (fresh_process 1 2 :: unit process)"
    by (simp add: process_ok_def fresh_process_def)
  ultimately show ?thesis using a b ra rb c k(1) by simp
qed

text \<open>
  Claim C2. When the representatives of the clients of a run are pairwise distinct, the
  pipeline ids the clients compute are pairwise distinct and are exactly
  \<open>0, ..., n - 1\<close>, where \<open>n\<close>, the number of clients, is the pipeline count that
  every client computes.
\<close>

theorem derive_partitions_permutation:
  assumes len: "length ps = length ms"
    and ok: "\<forall>i < length ms. has_coordinates BATCH_DIM (ms ! i) \<and>
               fits_int32 (representative (ms ! i)) \<and> process_ok (length ms) i (ps ! i)"
    and dist: "distinct (map representative ms)"
  shows "\<exists>pps. derive_partitions ps ms = map Inr pps \<and>
           distinct (map input_pipeline_id pps) \<and>
           set (map input_pipeline_id pps) = {0..<length ms} \<and>
           list_all (\<lambda>pp. num_input_pipelines pp = length ms) pps"
proof -
  let ?n = "length ms"
  let ?reps = "map representative ms"
  let ?s = "sorted_list_of_set (set ?reps)"
  from distinct_card [OF dist] have card: "card (set ?reps) = ?n" by simp
  have "\<forall>i. \<exists>k. i < ?n \<longrightarrow>
          derive_partitions ps ms ! i =
            Inr \<lparr>input_pipeline_id = k, num_input_pipelines = ?n,
                 num_local_replicas_in_sync = card (replica_ids BATCH_DIM (ms ! i))\<rparr> \<and>
          k < ?n \<and> ?s ! k = representative (ms ! i)"
    using derive_partitions_nth [OF len ok] card by metis
  then obtain f where f: "\<And>i. i < ?n \<Longrightarrow>
          derive_partitions ps ms ! i =
            Inr \<lparr>input_pipeline_id = f i, num_input_pipelines = ?n,
                 num_local_replicas_in_sync = card (replica_ids BATCH_DIM (ms ! i))\<rparr> \<and>
          f i < ?n \<and> ?s ! f i = representative (ms ! i)"
    by metis
  define pps where "pps = map (\<lambda>i. \<lparr>input_pipeline_id = f i, num_input_pipelines = ?n,
      num_local_replicas_in_sync = card (replica_ids BATCH_DIM (ms ! i))\<rparr>) [0..<?n]"
  have r: "derive_partitions ps ms = map Inr pps"
    by (rule nth_equalityI) (simp_all add: pps_def derive_partitions_def [where ms = ms, THEN arg_cong [of _ _ length]] f)
  have ids: "map input_pipeline_id pps = map f [0..<?n]"
    by (simp add: pps_def comp_def)
  have inj: "inj_on f {0..<?n}"
  proof (rule inj_onI)
    fix i j assume ij: "i \<in> {0..<?n}" "j \<in> {0..<?n}" "f i = f j"
    with f [of i] f [of j] have "?reps ! i = ?reps ! j" by simp
    moreover from ij have "i < length ?reps" "j < length ?reps" by simp_all
    ultimately show "i = j" using dist by (simp only: nth_eq_iff_index_eq)
  qed
  then have d: "distinct (map f [0..<?n])" by (simp add: distinct_map)
  have "f ` {0..<?n} \<subseteq> {0..<?n}" using f by auto
  moreover have "card (f ` {0..<?n}) = card {0..<?n}" using inj by (rule card_image)
  ultimately have "f ` {0..<?n} = {0..<?n}" by (intro card_subset_eq) simp_all
  then have st: "set (map f [0..<?n]) = {0..<?n}" by simp
  have cnt: "list_all (\<lambda>pp. num_input_pipelines pp = ?n) pps"
    by (simp add: pps_def list_all_iff)
  from r d st cnt show ?thesis unfolding ids [symmetric] by blast
qed

theorem derive_partitions_permutation_witness:
  "has_coordinates BATCH_DIM mesh_A \<and> has_coordinates BATCH_DIM mesh_B \<and>
   representative mesh_A = 0 \<and> representative mesh_B = 2 \<and>
   fits_int32 0 \<and> fits_int32 2 \<and> distinct [0, 2 :: int] \<and>
   process_ok 2 0 (fresh_process 0 2 :: unit process) \<and>
   process_ok 2 1 (fresh_process 1 2 :: unit process) \<and>
   derive_partitions [fresh_process 0 2, fresh_process 1 2 :: unit process] [mesh_A, mesh_B] =
     [Inr \<lparr>input_pipeline_id = 0, num_input_pipelines = 2, num_local_replicas_in_sync = 2\<rparr>,
      Inr \<lparr>input_pipeline_id = 1, num_input_pipelines = 2, num_local_replicas_in_sync = 2\<rparr>] \<and>
   (\<exists>pps. derive_partitions [fresh_process 0 2, fresh_process 1 2 :: unit process]
            [mesh_A, mesh_B] = map Inr pps \<and>
          distinct (map input_pipeline_id pps) \<and>
          set (map input_pipeline_id pps) = {0..<2} \<and>
          list_all (\<lambda>pp. num_input_pipelines pp = 2) pps)"
proof -
  let ?ps = "[fresh_process 0 2, fresh_process 1 2 :: unit process]"
  let ?ms = "[mesh_A, mesh_B]"
  have a: "has_coordinates BATCH_DIM mesh_A" by code_simp
  have b: "has_coordinates BATCH_DIM mesh_B" by code_simp
  have ra: "representative mesh_A = 0" by code_simp
  have rb: "representative mesh_B = 2" by code_simp
  have h1: "length ?ps = length ?ms" by simp
  have h2: "\<forall>i < length ?ms. has_coordinates BATCH_DIM (?ms ! i) \<and>
               fits_int32 (representative (?ms ! i)) \<and> process_ok (length ?ms) i (?ps ! i)"
    using a b ra rb
    by (simp add: less_Suc_eq fits_int32_def process_ok_def fresh_process_def)
  have h3: "distinct (map representative ?ms)" using ra rb by simp
  have e: "derive_partitions ?ps ?ms =
     [Inr \<lparr>input_pipeline_id = 0, num_input_pipelines = 2, num_local_replicas_in_sync = 2\<rparr>,
      Inr \<lparr>input_pipeline_id = 1, num_input_pipelines = 2, num_local_replicas_in_sync = 2\<rparr>]"
    by code_simp
  have l2: "length ?ms = 2" by simp
  note ex = derive_partitions_permutation [OF h1 h2 h3, unfolded l2]
  have f: "fits_int32 0 \<and> fits_int32 2 \<and> distinct [0, 2 :: int]"
    by (simp add: fits_int32_def)
  have po: "process_ok 2 0 (fresh_process 0 2 :: unit process) \<and>
      process_ok 2 1 (fresh_process 1 2 :: unit process)"
    by (simp add: process_ok_def fresh_process_def)
  from ex a b ra rb e f po show ?thesis by blast
qed

subsection \<open>The client mesh\<close>

lemma snd_unique_across_clients:
  "snd (unique_across_clients peers x p) = snd (ensure_client_mesh p)"
  by (simp add: unique_across_clients_def split: prod.splits sum.splits)

lemma snd_get_pipeline_params:
  "snd (get_pipeline_params peers m p) = p \<or>
   snd (get_pipeline_params peers m p) = snd (ensure_client_mesh p)"
proof (cases "collect_replicas BATCH_DIM (local_device_locations m) {}")
  case (Inl e)
  then show ?thesis by (simp add: get_pipeline_params_def)
next
  case (Inr replicas)
  show ?thesis
  proof (cases "replicas = {}")
    case True
    with Inr show ?thesis by (simp add: get_pipeline_params_def)
  next
    case False
    obtain r q where u: "unique_across_clients peers (Min replicas) p = (r, q)"
      by (cases "unique_across_clients peers (Min replicas) p")
    with snd_unique_across_clients [of peers "Min replicas" p]
    have q: "q = snd (ensure_client_mesh p)" by simp
    from Inr False u have "snd (get_pipeline_params peers m p) = q"
      by (simp add: get_pipeline_params_def split: sum.splits)
    with q show ?thesis by simp
  qed
qed

lemma after_calls_Cons: "after_calls (c # cs) p = after_calls cs (after_call c p)"
  by (simp add: after_calls_def)

lemma after_calls_append: "after_calls (cs @ cs') p = after_calls cs' (after_calls cs p)"
  by (simp add: after_calls_def)

lemma ensure_client_mesh_cached:
  "client_mesh p = Some obj \<Longrightarrow> snd (ensure_client_mesh p) = p"
  by (simp add: ensure_client_mesh_def)

lemma after_call_cached:
  "client_mesh p = Some obj \<Longrightarrow> after_call c p = p"
proof (cases c)
  case (Unique_across_clients peers x)
  assume "client_mesh p = Some obj"
  with Unique_across_clients show ?thesis
    by (simp add: snd_unique_across_clients ensure_client_mesh_cached)
next
  case (Get_pipeline_params peers m)
  assume "client_mesh p = Some obj"
  with Get_pipeline_params snd_get_pipeline_params [of peers m p] show ?thesis
    by (auto simp: ensure_client_mesh_cached)
qed

lemma after_calls_cached:
  "client_mesh p = Some obj \<Longrightarrow> after_calls cs p = p"
  by (induction cs) (simp_all add: after_calls_Cons after_call_cached, simp add: after_calls_def)

lemma ensure_client_mesh_fresh:
  "client_mesh p = None \<Longrightarrow>
   snd (ensure_client_mesh p) =
     p\<lparr>meshes_created := Suc (meshes_created p),
       client_mesh := Some (meshes_created p, client_mesh_value (num_clients p) (client_id p))\<rparr>"
  by (simp add: ensure_client_mesh_def create_client_mesh_def client_mesh_value_def)

lemma after_calls_state:
  "client_mesh p = None \<Longrightarrow>
   after_calls cs p = p \<or>
   after_calls cs p =
     p\<lparr>meshes_created := Suc (meshes_created p),
       client_mesh := Some (meshes_created p, client_mesh_value (num_clients p) (client_id p))\<rparr>"
proof (induction cs arbitrary: p)
  case Nil
  then show ?case by (simp add: after_calls_def)
next
  case (Cons c cs)
  let ?q = "p\<lparr>meshes_created := Suc (meshes_created p),
       client_mesh := Some (meshes_created p, client_mesh_value (num_clients p) (client_id p))\<rparr>"
  have "after_call c p = p \<or> after_call c p = ?q"
  proof (cases c)
    case (Unique_across_clients peers x)
    with Cons.prems show ?thesis
      by (simp add: snd_unique_across_clients ensure_client_mesh_fresh)
  next
    case (Get_pipeline_params peers m)
    with Cons.prems snd_get_pipeline_params [of peers m p] show ?thesis
      by (auto simp: ensure_client_mesh_fresh)
  qed
  then show ?case
  proof
    assume "after_call c p = p"
    with Cons show ?thesis by (simp add: after_calls_Cons)
  next
    assume q: "after_call c p = ?q"
    have "after_calls cs ?q = ?q" by (rule after_calls_cached) simp
    with q show ?thesis by (simp add: after_calls_Cons)
  qed
qed

text \<open>
  Claim C9. Whatever calls a process makes from its start, it constructs at most one
  client mesh; after a call of \<open>unique_across_clients\<close>, anywhere in the sequence, the
  global holds the first mesh object the process constructed and exactly one has been
  constructed; and once the global holds a mesh object, no later call changes the state
  of the process: the object is reused, never rebuilt and never replaced.
\<close>

theorem client_mesh_singleton:
  "meshes_created (after_calls cs (fresh_process i n :: 'l process)) \<le> 1 \<and>
   client_mesh (after_calls (cs @ Unique_across_clients peers x # cs')
                  (fresh_process i n :: 'l process)) = Some (0, client_mesh_value n i) \<and>
   meshes_created (after_calls (cs @ Unique_across_clients peers x # cs')
                     (fresh_process i n :: 'l process)) = 1 \<and>
   (\<forall>obj. client_mesh (after_calls cs (fresh_process i n :: 'l process)) = Some obj \<longrightarrow>
      obj = (0, client_mesh_value n i) \<and>
      after_calls (cs @ cs') (fresh_process i n :: 'l process) =
        after_calls cs (fresh_process i n))"
proof -
  let ?p = "fresh_process i n :: 'l process"
  let ?q = "?p\<lparr>meshes_created := Suc (meshes_created ?p),
       client_mesh := Some (meshes_created ?p, client_mesh_value (num_clients ?p) (client_id ?p))\<rparr>"
  have none: "client_mesh ?p = None" by (simp add: fresh_process_def)
  have cached: "after_calls ds ?q = ?q" for ds
    by (rule after_calls_cached) simp
  from after_calls_state [OF none, of cs]
  have st: "after_calls cs ?p = ?p \<or> after_calls cs ?p = ?q" .
  then have a: "meshes_created (after_calls cs ?p) \<le> 1"
    by (auto simp: fresh_process_def)
  have first: "after_call (Unique_across_clients peers x) ?p = ?q"
    by (simp add: snd_unique_across_clients ensure_client_mesh_fresh [OF none])
  have "after_calls (Unique_across_clients peers x # cs') (after_calls cs ?p) = ?q"
    using st
  proof
    assume "after_calls cs ?p = ?p"
    then show ?thesis by (simp only: after_calls_Cons first cached)
  next
    assume "after_calls cs ?p = ?q"
    then show ?thesis by (simp only: cached)
  qed
  then have b: "after_calls (cs @ Unique_across_clients peers x # cs') ?p = ?q"
    by (simp only: after_calls_append)
  have c: "obj = (0, client_mesh_value n i) \<and> after_calls (cs @ cs') ?p = after_calls cs ?p"
    if "client_mesh (after_calls cs ?p) = Some obj" for obj
  proof -
    have "after_calls (cs @ cs') ?p = after_calls cs' (after_calls cs ?p)"
      by (rule after_calls_append)
    also have "\<dots> = after_calls cs ?p" using that by (rule after_calls_cached)
    finally have "after_calls (cs @ cs') ?p = after_calls cs ?p" .
    moreover from st that none have "obj = (0, client_mesh_value n i)"
      by (auto simp: fresh_process_def)
    ultimately show ?thesis by simp
  qed
  from a b c show ?thesis by (simp add: fresh_process_def)
qed

theorem client_mesh_singleton_witness:
  "client_mesh (after_calls
      [Get_pipeline_params (map contribution [mesh_A, mesh_B]) mesh_A]
      (fresh_process 0 2 :: unit process)) = Some (0, client_mesh_value 2 0) \<and>
   after_calls
      ([Get_pipeline_params (map contribution [mesh_A, mesh_B]) mesh_A] @
       [Unique_across_clients (map packed_value [7, 9]) 7])
      (fresh_process 0 2 :: unit process) =
     after_calls [Get_pipeline_params (map contribution [mesh_A, mesh_B]) mesh_A]
      (fresh_process 0 2) \<and>
   meshes_created (after_calls
      ([Get_pipeline_params (map contribution [mesh_A, mesh_B]) mesh_A] @
       Unique_across_clients (map packed_value [7, 9]) 7 #
       [Unique_across_clients (map packed_value [7, 9]) 7])
      (fresh_process 0 2 :: unit process)) = 1"
proof -
  let ?g = "Get_pipeline_params (map contribution [mesh_A, mesh_B]) mesh_A"
  let ?u = "Unique_across_clients (map packed_value [7, 9]) 7"
  let ?p = "fresh_process 0 2 :: unit process"
  have c: "client_mesh (after_calls [?g] ?p) = Some (0, client_mesh_value 2 0)" by code_simp
  note th = client_mesh_singleton [of "[?g]" 0 2 "map packed_value [7, 9]" 7 "[?u]",
      where 'l = unit]
  from th c have "after_calls ([?g] @ [?u]) ?p = after_calls [?g] ?p" by simp
  moreover from th have "meshes_created (after_calls ([?g] @ ?u # [?u]) ?p) = 1" by simp
  ultimately show ?thesis using c by simp
qed

subsection \<open>The training loop\<close>

lemma steps_loop_step:
  assumes ok: "batch_ok pack_fn ds it"
  shows "steps_loop tr ds pack_fn (Suc n) it model acc =
           steps_loop tr ds pack_fn n (Suc it) (snd (step_outcome tr ds pack_fn it model))
             (loss_add tr acc (fst (step_outcome tr ds pack_fn it model)))"
proof -
  let ?w = "batch_of (word_id_data (source ds)) (local_batch_size ds) it"
  let ?mk = "batch_of (mask_data (source ds)) (local_batch_size ds) it"
  let ?ty = "batch_of (type_id_data (source ds)) (local_batch_size ds) it"
  let ?lab = "batch_of (labels (source ds)) (local_batch_size ds) it"
  from ok have nb: "next_batch ds it = Inr (?w, ?mk, ?ty, ?lab)"
    by (auto simp: batch_ok_def next_batch_def split: if_splits)
  from ok nb obtain dw dm dt dl where
    p: "pack_fn ?w = Inr dw" "pack_fn ?mk = Inr dm" "pack_fn ?ty = Inr dt" "pack_fn ?lab = Inr dl"
    and g: "take 1 (global_shape dl) = [batch_size]"
    by (auto simp: batch_ok_def packed_def succeeds_def split: sum.splits)
  from g obtain rest where gs: "global_shape dl = batch_size # rest"
    by (cases "global_shape dl") auto
  show ?thesis
    by (simp add: nb p gs step_outcome_def packed_def split: prod.splits)
qed

lemma steps_loop_ok:
  assumes "\<forall>j<n. batch_ok pack_fn ds (it + j)"
  shows "steps_loop tr ds pack_fn n it (model_after tr ds pack_fn model it) acc =
           Inr (foldl (loss_add tr) acc (map (step_loss tr ds pack_fn model) [it..<it + n]),
                model_after tr ds pack_fn model (it + n), it + n)"
  using assms
proof (induction n arbitrary: it acc)
  case 0
  then show ?case by simp
next
  case (Suc n)
  from Suc.prems have ok: "batch_ok pack_fn ds it" by (metis add.right_neutral zero_less_Suc)
  from Suc.prems have rest: "\<forall>j<n. batch_ok pack_fn ds (Suc it + j)"
    by (metis Suc_less_eq add_Suc_shift)
  have up: "[it..<it + Suc n] = it # [Suc it..<Suc it + n]"
    by (simp add: upt_conv_Cons)
  have m: "snd (step_outcome tr ds pack_fn it (model_after tr ds pack_fn model it)) =
             model_after tr ds pack_fn model (Suc it)" by simp
  show ?case
    unfolding steps_loop_step [OF ok] m
    by (simp only: Suc.IH [OF rest] up) (simp add: step_loss_def)
qed

lemma epochs_loop_ok:
  assumes S: "0 < S" and ok: "\<forall>k < (e + n) * S. batch_ok pack_fn ds k"
  shows "epochs_loop tr ds pack_fn S n e (e * S) (model_after tr ds pack_fn model (e * S)) p losses =
           Inr (losses @ map (epoch_loss tr ds pack_fn model S) [e..<e + n],
                model_after tr ds pack_fn model ((e + n) * S),
                p\<lparr>stdout := stdout p @
                    (if client_id p = 0 then reports tr ds pack_fn model S e n else [])\<rparr>)"
  using ok
proof (induction n arbitrary: e p losses)
  case 0
  then show ?case by (simp add: reports_def)
next
  case (Suc n)
  have "\<forall>j<S. batch_ok pack_fn ds (e * S + j)"
  proof (intro allI impI)
    fix j assume "j < S"
    then have "e * S + j < (e + Suc n) * S" by (simp add: add_mult_distrib)
    with Suc.prems show "batch_ok pack_fn ds (e * S + j)" by blast
  qed
  from steps_loop_ok [OF this, of tr model "loss_zero tr"]
  have st: "steps_loop tr ds pack_fn S (e * S) (model_after tr ds pack_fn model (e * S)) (loss_zero tr) =
      Inr (foldl (loss_add tr) (loss_zero tr) (map (step_loss tr ds pack_fn model) [e * S..<e * S + S]),
           model_after tr ds pack_fn model (Suc e * S), Suc e * S)"
    by (simp add: add.commute)
  from Suc.prems have ok': "\<forall>k < (Suc e + n) * S. batch_ok pack_fn ds k" by simp
  have up: "[e..<e + Suc n] = e # [Suc e..<Suc e + n]" by (simp add: upt_conv_Cons)
  let ?l = "epoch_loss tr ds pack_fn model S e"
  have out: "stdout (rprint (Epoch_Loss e ?l) p) @
               (if client_id (rprint (Epoch_Loss e ?l) p) = 0
                then reports tr ds pack_fn model S (Suc e) n else []) =
             stdout p @ (if client_id p = 0 then reports tr ds pack_fn model S e (Suc n) else [])"
  proof -
    have r: "reports tr ds pack_fn model S e (Suc n) =
               (0, Epoch_Loss e ?l) # reports tr ds pack_fn model S (Suc e) n"
      by (simp only: reports_def up list.map)
    show ?thesis by (simp add: rprint_def dprint_def r)
  qed
  have upd: "(rprint (Epoch_Loss e ?l) p)\<lparr>stdout := xs\<rparr> = p\<lparr>stdout := xs\<rparr>" for xs
    by (simp add: rprint_def dprint_def)
  from S have S0: "S \<noteq> 0" by simp
  have step: "epochs_loop tr ds pack_fn S (Suc n) e (e * S) (model_after tr ds pack_fn model (e * S))
                p losses =
              epochs_loop tr ds pack_fn S n (Suc e) (Suc e * S)
                (model_after tr ds pack_fn model (Suc e * S))
                (rprint (Epoch_Loss e ?l) p) (losses @ [?l])"
    by (simp add: st S0 epoch_loss_def reduce_mean_def Let_def del: mult_Suc)
  have idx: "(Suc e + n) * S = (e + Suc n) * S" by simp
  have ls: "(losses @ [?l]) @ map (epoch_loss tr ds pack_fn model S) [Suc e..<Suc e + n] =
            losses @ map (epoch_loss tr ds pack_fn model S) [e..<e + Suc n]"
    by (simp only: up list.map append_assoc append_Cons append_Nil)
  show ?case
    unfolding step Suc.IH [OF ok'] out upd idx ls ..
qed

lemma get_pipeline_params_local:
  assumes wf: "has_coordinates BATCH_DIM m"
    and g: "get_pipeline_params peers m p = (Inr pp, p1)"
  shows "num_local_replicas_in_sync pp = card (replica_ids BATCH_DIM m)"
proof -
  from collect_local_replicas [OF wf] have
    col: "collect_replicas BATCH_DIM (local_device_locations m) {} = Inr (replica_ids BATCH_DIM m)"
    and ne: "replica_ids BATCH_DIM m \<noteq> {}" by simp_all
  from g show ?thesis
    by (auto simp: get_pipeline_params_def col ne Let_def split: prod.splits sum.splits)
qed

lemma synthetic_shapes:
  "shape (word_id_data (synthetic_data gen s)) = [batch_size, sequence_length] \<and>
   shape (mask_data (synthetic_data gen s)) = [batch_size, sequence_length] \<and>
   shape (type_id_data (synthetic_data gen s)) = [batch_size, sequence_length] \<and>
   shape (labels (synthetic_data gen s)) = [batch_size]"
  by (simp add: synthetic_data_def randint_array_def Let_def split: prod.splits)

lemma shape_batch_of: "shape (batch_of t n k) = n # tl (shape t)"
  by (simp add: batch_of_def Let_def)

lemma num_shards_batch: "dims m = mesh_dims \<Longrightarrow> num_shards m BATCH_DIM = 4"
  by (simp add: num_shards_def mesh_dims_def BATCH_DIM_def UNSHARDED_def)

lemma shard_batch:
  assumes dims: "dims m = mesh_dims" and wf: "has_coordinates BATCH_DIM m"
  shows "\<exists>d. shard_data m BATCH_DIM
               (batch_of t (batch_size div 4 * card (replica_ids BATCH_DIM m)) k) = Inr d \<and>
             take 1 (global_shape d) = [batch_size] \<and>
             length (global_shape d) = Suc (length (tl (shape t))) \<and>
             length (components d) = length (local_device_locations m) \<and>
             list_all (\<lambda>c. shape c = (batch_size div 4) # tl (shape t)) (components d)"
proof -
  let ?R = "card (replica_ids BATCH_DIM m)"
  let ?b = "batch_of t (batch_size div 4 * ?R) k"
  from replica_ids_nonempty [OF wf] have R0: "?R \<noteq> 0" .
  have sh: "shape ?b = (batch_size div 4 * ?R) # tl (shape t)" by (rule shape_batch_of)
  have dv: "(batch_size div 4 * ?R) mod ?R = 0" by simp
  from R0 have q: "batch_size div 4 * ?R div ?R = batch_size div 4" by simp
  from shard_data_components [OF wf sh dv] obtain d where
    d: "shard_data m BATCH_DIM ?b = Inr d" and
    sp: "sharding_specs d = BATCH_DIM # replicate (length (tl (shape t))) UNSHARDED" and
    gs: "global_shape d = map2 (\<lambda>n spec. n * num_shards m spec)
           ((batch_size div 4 * ?R div ?R) # tl (shape t)) (sharding_specs d)" and
    cs: "components d = map (\<lambda>entry. contiguous_slice ?b ?R
           (the (replica_to_slice (replica_ids BATCH_DIM m) (the (map_of entry BATCH_DIM)))))
           (local_device_locations m)"
    by blast
  have g1: "take 1 (global_shape d) = [batch_size]"
    unfolding gs sp q by (simp add: num_shards_batch [OF dims] batch_size_def)
  have g2: "length (global_shape d) = Suc (length (tl (shape t)))"
    unfolding gs sp by simp
  have c1: "list_all (\<lambda>c. shape c = (batch_size div 4) # tl (shape t)) (components d)"
    unfolding cs using q by (simp add: list_all_iff contiguous_slice_def axis0_def sh Let_def)
  from d g1 g2 c1 cs show ?thesis by simp
qed

lemma batch_ok_shard_data:
  assumes dims: "dims m = mesh_dims" and wf: "has_coordinates BATCH_DIM m"
    and B: "local_batch_size ds = batch_size div 4 * card (replica_ids BATCH_DIM m)"
    and ne: "\<not> exhausted ds"
  shows "batch_ok (shard_data m BATCH_DIM) ds k"
  using shard_batch [OF dims wf, of "word_id_data (source ds)" k]
    shard_batch [OF dims wf, of "mask_data (source ds)" k]
    shard_batch [OF dims wf, of "type_id_data (source ds)" k]
    shard_batch [OF dims wf, of "labels (source ds)" k] ne
  by (auto simp: batch_ok_def next_batch_def B succeeds_def packed_def)

lemma get_dataset_result:
  assumes dims: "dims m = mesh_dims" and wf: "has_coordinates BATCH_DIM m"
    and gd: "get_dataset gen peers m p = (Inr (ds, pack_fn), p')"
  shows "local_batch_size ds = batch_size div 4 * card (replica_ids BATCH_DIM m) \<and>
         pack_fn = shard_data m BATCH_DIM \<and> \<not> exhausted ds \<and>
         shape (labels (source ds)) = [batch_size]"
proof -
  from dims have ds4: "dim_size m BATCH_DIM = Inr 4"
    by (simp add: dim_size_def mesh_dims_def BATCH_DIM_def)
  from gd obtain pp p1 where
    g: "get_pipeline_params peers m p = (Inr pp, p1)" and
    dsv: "ds = \<lparr>source = synthetic_data gen (input_pipeline_id pp),
               local_batch_size = batch_size div 4 * num_local_replicas_in_sync pp\<rparr>" and
    pf: "pack_fn = shard_data m BATCH_DIM"
    by (auto simp: get_dataset_def ds4 Let_def split: prod.splits sum.splits if_splits)
  from get_pipeline_params_local [OF wf g] dsv
  have B: "local_batch_size ds = batch_size div 4 * card (replica_ids BATCH_DIM m)" by simp
  note sh = synthetic_shapes [of gen "input_pipeline_id pp"]
  from sh have lab: "shape (labels (source ds)) = [batch_size]" by (simp add: dsv)
  from sh have "\<not> exhausted ds"
    by (simp add: exhausted_def dsv axis0_def batch_size_def)
  with B pf lab show ?thesis by simp
qed

lemma train_model_succeeds:
  assumes "0 < steps_per_epoch"
    and "\<forall>k < num_epochs * steps_per_epoch. batch_ok pack_fn ds k"
  shows "\<exists>r. train_model tr model ds pack_fn steps_per_epoch num_epochs p = Inr r"
proof -
  from assms(2) have ok: "\<forall>k < (0 + num_epochs) * steps_per_epoch. batch_ok pack_fn ds k" by simp
  from epochs_loop_ok [OF assms(1) ok, of tr model "rprint Training_started p" "[]"]
  show ?thesis by (simp add: train_model_def)
qed




lemma train_model_no_steps:
  "train_model tr model ds pack_fn 0 num_epochs p \<noteq> Inl AssertionError"
  by (cases num_epochs) (simp_all add: train_model_def)

text \<open>
  Claim C10. On the 4 x 2 mesh, for a client whose number \<open>R\<close> of distinct batch
  coordinates divides 4, the client-local batch has \<open>batch_size div 4 * R\<close> rows;
  \<open>shard_data\<close> gives every local device a slice of \<open>batch_size div 4\<close> rows of the
  labels; the packed labels have the global shape \<open>[batch_size]\<close>; and \<open>train_model\<close>
  never fails with the assertion on the label extent.
\<close>

theorem labels_extent:
  assumes dims: "dims m = mesh_dims" and wf: "has_coordinates BATCH_DIM m"
    and R: "card (replica_ids BATCH_DIM m) dvd 4"
    and gd: "get_dataset gen peers m p = (Inr (ds, pack_fn), p')"
  shows "local_batch_size ds = batch_size div 4 * card (replica_ids BATCH_DIM m) \<and>
         (\<forall>k. \<exists>d. shape (batch_of (labels (source ds)) (local_batch_size ds) k) =
                    [batch_size div 4 * card (replica_ids BATCH_DIM m)] \<and>
                  pack_fn (batch_of (labels (source ds)) (local_batch_size ds) k) = Inr d \<and>
                  global_shape d = [batch_size] \<and>
                  length (components d) = length (local_device_locations m) \<and>
                  list_all (\<lambda>c. shape c = [batch_size div 4]) (components d)) \<and>
         train_model tr model ds pack_fn steps_per_epoch num_epochs q \<noteq> Inl AssertionError"
proof -
  let ?R = "card (replica_ids BATCH_DIM m)"
  from get_dataset_result [OF dims wf gd] have
    B: "local_batch_size ds = batch_size div 4 * ?R" and
    pf: "pack_fn = shard_data m BATCH_DIM" and ne: "\<not> exhausted ds" and
    lab: "shape (labels (source ds)) = [batch_size]" by simp_all
  have each: "\<exists>d. shape (batch_of (labels (source ds)) (local_batch_size ds) k) =
                    [batch_size div 4 * ?R] \<and>
                  pack_fn (batch_of (labels (source ds)) (local_batch_size ds) k) = Inr d \<and>
                  global_shape d = [batch_size] \<and>
                  length (components d) = length (local_device_locations m) \<and>
                  list_all (\<lambda>c. shape c = [batch_size div 4]) (components d)" for k
  proof -
    from shard_batch [OF dims wf, of "labels (source ds)" k] obtain d where
      d: "shard_data m BATCH_DIM (batch_of (labels (source ds)) (batch_size div 4 * ?R) k) = Inr d"
      "take 1 (global_shape d) = [batch_size]"
      "length (global_shape d) = Suc (length (tl (shape (labels (source ds)))))"
      "length (components d) = length (local_device_locations m)"
      "list_all (\<lambda>c. shape c = (batch_size div 4) # tl (shape (labels (source ds)))) (components d)"
      by blast
    from d(2,3) have "global_shape d = [batch_size]"
      by (cases "global_shape d") (simp_all add: lab)
    with d show ?thesis by (simp add: B pf lab shape_batch_of)
  qed
  have "train_model tr model ds pack_fn steps_per_epoch num_epochs q \<noteq> Inl AssertionError"
  proof (cases "steps_per_epoch = 0")
    case True
    then show ?thesis by (simp add: train_model_no_steps)
  next
    case False
    then have S: "0 < steps_per_epoch" by simp
    have "\<forall>k < num_epochs * steps_per_epoch. batch_ok pack_fn ds k"
      unfolding pf using batch_ok_shard_data [OF dims wf B ne] by simp
    from train_model_succeeds [OF S this, of tr model q] show ?thesis by auto
  qed
  with B each show ?thesis by blast
qed

theorem labels_extent_witness:
  "dims mesh_A = mesh_dims \<and> has_coordinates BATCH_DIM mesh_A \<and>
   card (replica_ids BATCH_DIM mesh_A) dvd 4 \<and>
   fst (get_dataset counting_generator (map contribution [mesh_A, mesh_B]) mesh_A
          (fresh_process 0 2 :: int process)) = Inr (dataset_A, shard_data mesh_A BATCH_DIM) \<and>
   local_batch_size dataset_A = 16 \<and>
   (\<exists>d. shard_data mesh_A BATCH_DIM (batch_of (labels (source dataset_A)) 16 5) = Inr d \<and>
        global_shape d = [32] \<and> length (components d) = 4 \<and>
        list_all (\<lambda>c. shape c = [8]) (components d)) \<and>
   train_model counting_trainer 0 dataset_A (shard_data mesh_A BATCH_DIM) 10 3
     (fresh_process 0 2) \<noteq> Inl AssertionError"
proof -
  let ?pack = "shard_data mesh_A BATCH_DIM"
  let ?peers = "map contribution [mesh_A, mesh_B]"
  let ?p = "fresh_process 0 2 :: int process"
  let ?g = "get_dataset counting_generator ?peers mesh_A ?p"
  have d: "dims mesh_A = mesh_dims" by (simp add: mesh_A_def)
  have wf: "has_coordinates BATCH_DIM mesh_A" by code_simp
  have c: "card (replica_ids BATCH_DIM mesh_A) = 2" by code_simp
  then have R: "card (replica_ids BATCH_DIM mesh_A) dvd 4" by simp
  have pp: "fst (get_pipeline_params ?peers mesh_A ?p) =
              Inr \<lparr>input_pipeline_id = 0, num_input_pipelines = 2, num_local_replicas_in_sync = 2\<rparr>"
    by code_simp
  have ds4: "dim_size mesh_A BATCH_DIM = Inr 4"
    by (simp add: dim_size_def mesh_A_def mesh_dims_def BATCH_DIM_def)
  have f: "fst ?g = Inr (dataset_A, ?pack)"
    using pp by (cases "get_pipeline_params ?peers mesh_A ?p")
      (simp add: get_dataset_def ds4 Let_def dataset_A_def batch_size_def)
  then have gd: "?g = (Inr (dataset_A, ?pack), snd ?g)" by (cases ?g) simp
  have len: "length (local_device_locations mesh_A) = 4" by (simp add: mesh_A_def)
  have bs: "batch_size = 32" by (simp add: batch_size_def)
  note th = labels_extent [OF d wf R gd, of counting_trainer 0 10 3 "fresh_process 0 2"]
  from th have l: "local_batch_size dataset_A = 16" by (simp add: c bs)
  from th have "\<forall>k. \<exists>d. shape (batch_of (labels (source dataset_A)) (local_batch_size dataset_A) k) =
                    [batch_size div 4 * card (replica_ids BATCH_DIM mesh_A)] \<and>
                  ?pack (batch_of (labels (source dataset_A)) (local_batch_size dataset_A) k) = Inr d \<and>
                  global_shape d = [batch_size] \<and>
                  length (components d) = length (local_device_locations mesh_A) \<and>
                  list_all (\<lambda>c. shape c = [batch_size div 4]) (components d)"
    by blast
  then obtain dd where
    "?pack (batch_of (labels (source dataset_A)) (local_batch_size dataset_A) 5) = Inr dd"
    "global_shape dd = [batch_size]"
    "length (components dd) = length (local_device_locations mesh_A)"
    "list_all (\<lambda>c. shape c = [batch_size div 4]) (components dd)"
    by blast
  then have ex: "\<exists>d. ?pack (batch_of (labels (source dataset_A)) 16 5) = Inr d \<and>
        global_shape d = [32] \<and> length (components d) = 4 \<and>
        list_all (\<lambda>c. shape c = [8]) (components d)"
    by (simp add: l bs len)
  from th have na: "train_model counting_trainer 0 dataset_A ?pack 10 3 (fresh_process 0 2) \<noteq>
         Inl AssertionError" by blast
  from d wf R f l ex na show ?thesis by blast
qed

end
